theory Spec2Isabelle
  imports Complex_Main
begin

section \<open>JavaScript values the code computes with\<close>

text \<open>
  A JavaScript \<open>Date\<close> is either a time value (milliseconds since the epoch) or the
  invalid date that \<open>new Date\<close> returns for text it cannot read. An invalid date is an
  object all the same, so it is truthy, and every comparison with it is false.
  The range limit of time values (8.64e15 ms either side of the epoch) is not modelled.
\<close>

datatype date = InvalidDate | Date int

fun date_lt :: "date \<Rightarrow> date \<Rightarrow> bool" where
  "date_lt (Date x) (Date y) = (x < y)"
| "date_lt _ _ = False"

fun date_gt :: "date \<Rightarrow> date \<Rightarrow> bool" where
  "date_gt (Date x) (Date y) = (x > y)"
| "date_gt _ _ = False"

fun date_ge :: "date \<Rightarrow> date \<Rightarrow> bool" where
  "date_ge (Date x) (Date y) = (x \<ge> y)"
| "date_ge _ _ = False"

fun date_le :: "date \<Rightarrow> date \<Rightarrow> bool" where
  "date_le (Date x) (Date y) = (x \<le> y)"
| "date_le _ _ = False"

text \<open>The difference of two dates is a number, \<open>NaN\<close> when either date is invalid.\<close>

datatype jsnum = NaN | Num int

fun date_minus :: "date \<Rightarrow> date \<Rightarrow> jsnum" where
  "date_minus (Date x) (Date y) = Num (x - y)"
| "date_minus _ _ = NaN"

text \<open>
  What the source can raise. A division by zero raises nothing in JavaScript (it yields
  \<open>Infinity\<close> or \<open>NaN\<close>); the model reports it as \<open>DivisionByZero\<close> so that
  its absence can be stated.
\<close>

datatype error = TypeError | DivisionByZero

text \<open>
  Numbers read from the log (token counts, costs) are modelled as reals: the rounding of
  IEEE doubles is abstracted away, and a field that is present is taken to hold a number.
\<close>

definition or0 :: "real option \<Rightarrow> real" where
  "or0 v = (case v of None \<Rightarrow> 0 | Some x \<Rightarrow> x)"

section \<open>Decoded log entries\<close>

text \<open>
  An element of a message's \<open>content\<close> array. Reading \<open>.type\<close> of \<open>null\<close> raises;
  an element that is a number, a string or an array has no \<open>type\<close>, as
  \<open>Block None None None\<close>.
\<close>

datatype block = NullBlock
  | Block (b_type: "string option") (b_id: "string option") (b_name: "string option")

text \<open>
  The \<open>content\<close> field: missing or \<open>null\<close>; a string; a number, a boolean or a plain
  object (with its truthiness); or an array of blocks.
\<close>

datatype content = NoContent | TextContent string | ScalarContent bool | Blocks "block list"

record usage =
  u_input :: "real option"
  u_output :: "real option"
  u_cacheRead :: "real option"
  u_cacheWrite :: "real option"
  u_totalTokens :: "real option"
  u_cost_total :: "real option"

record msg =
  role :: "string option"
  content :: content
  usage :: "usage option"
  toolCallId :: "string option"
  isError :: bool

text \<open>
  One decoded line. \<open>JSON.parse\<close> accepts the line \<open>null\<close>, and reading a property of
  \<open>null\<close> raises; a line that is a number, a string or an array has no field at all.
  \<open>e_timestamp\<close> is \<open>None\<close> when the field is missing and \<open>Some (new Date(field))\<close>
  when it is truthy. A timestamp that is present but falsy (\<open>null\<close>, 0, \<open>false\<close>, the
  empty string) is read as missing: the source treats it so everywhere but in the
  timestamps it copies into Messages, ToolCalls and Results. Identifiers, names and roles
  are strings.
\<close>

datatype entry = NullEntry
  | Entry (e_timestamp: "date option") (e_type: "string option") (e_id: "string option")
      (e_modelId: "string option") (e_provider: "string option") (e_message: "msg option")

text \<open>\<open>new Date(entry.timestamp)\<close>: the invalid date when there is no timestamp.\<close>

definition entry_date :: "date option \<Rightarrow> date" where
  "entry_date ts = (case ts of None \<Rightarrow> InvalidDate | Some d \<Rightarrow> d)"

section \<open>Sessions (parser.js)\<close>

record tokenUsage =
  t_input :: real
  t_output :: real
  t_cacheRead :: real
  t_cacheWrite :: real
  t_total :: real

record message =
  m_role :: "string option"
  m_timestamp :: date
  hasToolCalls :: bool

record result =
  r_isError :: bool
  r_timestamp :: date

record toolCall =
  tc_id :: "string option"
  tc_name :: "string option"
  tc_timestamp :: date
  tc_result :: "result option"

record session =
  s_id :: string
  s_file :: string
  startTime :: "date option"
  endTime :: "date option"
  messages :: "message list"
  toolCalls :: "toolCall list"
  tokens :: tokenUsage
  cost :: real
  model :: "string option"
  provider :: "string option"
  durationMs :: "jsnum option"

text \<open>
  The session \<open>processSession\<close> starts from; \<open>base\<close> is
  \<open>path.basename(filePath, '.jsonl')\<close>.
\<close>

definition init_session :: "string \<Rightarrow> string \<Rightarrow> session" where
  "init_session base filePath =
     \<lparr> s_id = base, s_file = filePath, startTime = None, endTime = None,
       messages = [], toolCalls = [],
       tokens = \<lparr> t_input = 0, t_output = 0, t_cacheRead = 0, t_cacheWrite = 0, t_total = 0 \<rparr>,
       cost = 0, model = None, provider = None, durationMs = None \<rparr>"

text \<open>The timestamp step: running minimum and maximum.\<close>

definition update_times :: "date option \<Rightarrow> session \<Rightarrow> session" where
  "update_times tso s =
     (case tso of
        None \<Rightarrow> s
      | Some ts \<Rightarrow>
          (let s1 = (case startTime s of
                       None \<Rightarrow> s\<lparr>startTime := Some ts\<rparr>
                     | Some st \<Rightarrow> if date_lt ts st then s\<lparr>startTime := Some ts\<rparr> else s)
           in case endTime s1 of
                None \<Rightarrow> s1\<lparr>endTime := Some ts\<rparr>
              | Some en \<Rightarrow> if date_gt ts en then s1\<lparr>endTime := Some ts\<rparr> else s1))"

text \<open>\<open>session.id = entry.id || session.id\<close>: the empty string is falsy.\<close>

definition update_meta :: "string option \<Rightarrow> string option \<Rightarrow> session \<Rightarrow> session" where
  "update_meta ty i s =
     (if ty = Some ''session''
      then (case i of None \<Rightarrow> s | Some x \<Rightarrow> if x = [] then s else s\<lparr>s_id := x\<rparr>)
      else s)"

definition update_model :: "string option \<Rightarrow> string option \<Rightarrow> string option \<Rightarrow> session \<Rightarrow> session" where
  "update_model ty mid prov s =
     (if ty = Some ''model_change'' then s\<lparr>model := mid, provider := prov\<rparr> else s)"

text \<open>\<open>content.some(c => c.type === 'toolCall')\<close> stops at the first match.\<close>

fun some_toolCall :: "block list \<Rightarrow> error + bool" where
  "some_toolCall [] = Inr False"
| "some_toolCall (NullBlock # bs) = Inl TypeError"
| "some_toolCall (Block ty i n # bs) =
     (if ty = Some ''toolCall'' then Inr True else some_toolCall bs)"

text \<open>
  \<open>msg.content?.some(...) || false\<close>: the optional chain covers a missing or \<open>null\<close>
  content only; any other value that is not an array has no \<open>some\<close> method.
\<close>

fun content_hasToolCalls :: "content \<Rightarrow> error + bool" where
  "content_hasToolCalls NoContent = Inr False"
| "content_hasToolCalls (Blocks bs) = some_toolCall bs"
| "content_hasToolCalls _ = Inl TypeError"

text \<open>
  The loop over the content blocks, appending a ToolCall for each invocation. The
  characters of a string have no \<open>type\<close>; a truthy value that is not iterable raises.
\<close>

fun push_toolCalls :: "date \<Rightarrow> block list \<Rightarrow> toolCall list \<Rightarrow> error + toolCall list" where
  "push_toolCalls d [] tcs = Inr tcs"
| "push_toolCalls d (NullBlock # bs) tcs = Inl TypeError"
| "push_toolCalls d (Block ty i n # bs) tcs =
     push_toolCalls d bs
       (if ty = Some ''toolCall''
        then tcs @ [\<lparr> tc_id = i, tc_name = n, tc_timestamp = d, tc_result = None \<rparr>]
        else tcs)"

fun content_toolCalls :: "date \<Rightarrow> content \<Rightarrow> toolCall list \<Rightarrow> error + toolCall list" where
  "content_toolCalls d (Blocks bs) tcs = push_toolCalls d bs tcs"
| "content_toolCalls d NoContent tcs = Inr tcs"
| "content_toolCalls d (TextContent t) tcs = Inr tcs"
| "content_toolCalls d (ScalarContent t) tcs = (if t then Inl TypeError else Inr tcs)"

text \<open>The usage of an assistant message, added field by field.\<close>

definition add_usage :: "usage \<Rightarrow> session \<Rightarrow> session" where
  "add_usage u s =
     s\<lparr> tokens :=
          \<lparr> t_input = t_input (tokens s) + or0 (u_input u),
            t_output = t_output (tokens s) + or0 (u_output u),
            t_cacheRead = t_cacheRead (tokens s) + or0 (u_cacheRead u),
            t_cacheWrite = t_cacheWrite (tokens s) + or0 (u_cacheWrite u),
            t_total = t_total (tokens s) + or0 (u_totalTokens u) \<rparr>,
        cost := (case u_cost_total u of
                   None \<Rightarrow> cost s
                 | Some c \<Rightarrow> if c \<noteq> 0 then cost s + c else cost s) \<rparr>"

definition update_usage :: "msg \<Rightarrow> session \<Rightarrow> session" where
  "update_usage m s =
     (if role m = Some ''assistant''
      then (case usage m of None \<Rightarrow> s | Some u \<Rightarrow> add_usage u s)
      else s)"

text \<open>The message step: append the Message, add the usage, append the ToolCalls.\<close>

definition update_message :: "date option \<Rightarrow> msg \<Rightarrow> session \<Rightarrow> error + session" where
  "update_message ts m s =
     (case content_hasToolCalls (content m) of
        Inl e \<Rightarrow> Inl e
      | Inr h \<Rightarrow>
          (let s1 = s\<lparr>messages := messages s @
                       [\<lparr> m_role = role m, m_timestamp = entry_date ts, hasToolCalls = h \<rparr>]\<rparr>;
               s2 = update_usage m s1
           in case content_toolCalls (entry_date ts) (content m) (toolCalls s2) of
                Inl e \<Rightarrow> Inl e
              | Inr tcs \<Rightarrow> Inr (s2\<lparr>toolCalls := tcs\<rparr>)))"

text \<open>\<open>toolCalls.find(t => t.id === id)\<close>, as the index of the first match.\<close>

fun find_toolCall :: "string option \<Rightarrow> toolCall list \<Rightarrow> nat option" where
  "find_toolCall x [] = None"
| "find_toolCall x (t # ts) =
     (if tc_id t = x then Some 0 else map_option Suc (find_toolCall x ts))"

text \<open>The tool-result step: the first ToolCall with the id gets the Result.\<close>

definition attach_result :: "date option \<Rightarrow> msg \<Rightarrow> session \<Rightarrow> session" where
  "attach_result ts m s =
     (if role m = Some ''toolResult''
      then (case find_toolCall (toolCallId m) (toolCalls s) of
              None \<Rightarrow> s
            | Some k \<Rightarrow>
                s\<lparr>toolCalls := (toolCalls s)
                     [k := (toolCalls s ! k)
                        \<lparr>tc_result := Some \<lparr> r_isError = isError m,
                                             r_timestamp = entry_date ts \<rparr>\<rparr>]\<rparr>)
      else s)"

text \<open>The body of the loop of \<open>processSession\<close>, for one entry.\<close>

fun process_entry :: "session \<Rightarrow> entry \<Rightarrow> error + session" where
  "process_entry s NullEntry = Inl TypeError"
| "process_entry s (Entry ts ty i mid prov mo) =
     (let s1 = update_times ts s;
          s2 = update_meta ty i s1;
          s3 = update_model ty mid prov s2
      in case mo of
           None \<Rightarrow> Inr s3
         | Some m \<Rightarrow>
             if ty = Some ''message''
             then (case update_message ts m s3 of
                     Inl e \<Rightarrow> Inl e
                   | Inr s4 \<Rightarrow> Inr (attach_result ts m s4))
             else Inr s3)"

text \<open>The loop: an exception leaves it at once.\<close>

fun fold_entries :: "session \<Rightarrow> entry list \<Rightarrow> error + session" where
  "fold_entries s [] = Inr s"
| "fold_entries s (e # es) =
     (case process_entry s e of Inl err \<Rightarrow> Inl err | Inr s' \<Rightarrow> fold_entries s' es)"

definition set_duration :: "session \<Rightarrow> session" where
  "set_duration s =
     (case (startTime s, endTime s) of
        (Some a, Some b) \<Rightarrow> s\<lparr>durationMs := Some (date_minus b a)\<rparr>
      | _ \<Rightarrow> s)"

definition processSession :: "entry list \<Rightarrow> string \<Rightarrow> string \<Rightarrow> error + session" where
  "processSession lines filePath base =
     (case fold_entries (init_session base filePath) lines of
        Inl err \<Rightarrow> Inl err
      | Inr s \<Rightarrow> Inr (set_duration s))"

section \<open>Aggregation (analytics.js)\<close>

text \<open>
  The host's time zone enters the way ECMAScript's \<open>LocalTZA\<close> does: \<open>tzaUTC t\<close> is
  the offset of local time from UTC, in milliseconds, in force at the instant \<open>t\<close>, and
  \<open>tzaLocal l\<close> the offset the host uses to read the local time value \<open>l\<close> back. A
  zone without daylight-saving time has both constant. \<open>now\<close> is the time value of
  \<open>new Date()\<close> when the object was built, \<open>utcOffset\<close> the offset in force then.
  The argument \<open>days\<close> of the methods is an integer.
\<close>

record analytics =
  sessions :: "session list"
  now :: int
  tzaUTC :: "int \<Rightarrow> int"
  tzaLocal :: "int \<Rightarrow> int"

definition utcOffset :: "analytics \<Rightarrow> int" where
  "utcOffset a = tzaUTC a (now a)"

definition DAY :: int where
  "DAY = 86400000"

text \<open>\<open>TimeClip\<close>: a time value beyond 8.64e15 ms either side of the epoch is no date.\<close>

definition in_range :: "int \<Rightarrow> bool" where
  "in_range t = (\<bar>t\<bar> \<le> 8640000000000000)"

definition TimeClip :: "int \<Rightarrow> date" where
  "TimeClip t = (if in_range t then Date t else InvalidDate)"

text \<open>
  \<open>d.setDate(d.getDate() - n)\<close> on a date with time value \<open>t\<close>: the local time moves
  by \<open>n\<close> calendar days, the time within the day stays, and the result is read back
  to UTC and clipped. Across a change of offset the instant moves by more or less than
  \<open>n\<close> times 86400000 ms.
\<close>

definition setDate_minus :: "analytics \<Rightarrow> int \<Rightarrow> int \<Rightarrow> date" where
  "setDate_minus a t n =
     (let l = t + tzaUTC a t - n * DAY in TimeClip (l - tzaLocal a l))"

text \<open>
  The daily buckets and the hour histogram are modelled for a window that holds no change
  of offset and no instant out of range: they use \<open>utcOffset\<close> throughout. There
  \<open>setDate(getDate() - n)\<close> moves an instant by \<open>n\<close> days of 86400000 ms and
  \<open>setHours(0, 0, 0, 0)\<close> is the local midnight before it.
\<close>

definition local_midnight :: "int \<Rightarrow> int \<Rightarrow> int" where
  "local_midnight off t = t - ((t + off) mod DAY)"

definition getHours :: "int \<Rightarrow> int \<Rightarrow> nat" where
  "getHours off t = nat (((t + off) div 3600000) mod 24)"

text \<open>\<open>s.startTime && s.startTime >= cutoff\<close>\<close>

definition started_since :: "date \<Rightarrow> session \<Rightarrow> bool" where
  "started_since cutoff s =
     (case startTime s of None \<Rightarrow> False | Some d \<Rightarrow> date_ge d cutoff)"

definition filterByDays :: "analytics \<Rightarrow> int \<Rightarrow> session list" where
  "filterByDays a days = filter (started_since (setDate_minus a (now a) days)) (sessions a)"

text \<open>
  One row of the daily statistics. \<open>ds_date\<close> is the instant of the bucket's local
  midnight; the source stores the calendar date of its ISO rendering.
\<close>

record dailyStat =
  ds_date :: int
  ds_sessions :: nat
  ds_messages :: nat
  ds_toolCalls :: nat
  ds_tokens :: real
  ds_cost :: real
  ds_userMessages :: nat
  ds_assistantMessages :: nat

text \<open>\<open>s.startTime && s.startTime >= date && s.startTime < nextDate\<close>\<close>

definition started_within :: "int \<Rightarrow> int \<Rightarrow> session \<Rightarrow> bool" where
  "started_within date nextDate s =
     (case startTime s of
        None \<Rightarrow> False
      | Some d \<Rightarrow> date_ge d (Date date) \<and> date_lt d (Date nextDate))"

definition count_role :: "string \<Rightarrow> session \<Rightarrow> nat" where
  "count_role r s = length (filter (\<lambda>m. m_role m = Some r) (messages s))"

text \<open>The body of the loop of \<open>getDailyStats\<close>, for the day \<open>i\<close> days back.\<close>

definition day_stat :: "analytics \<Rightarrow> int \<Rightarrow> dailyStat" where
  "day_stat a i =
     (let date = local_midnight (utcOffset a) (now a - i * DAY);
          nextDate = date + DAY;
          daySessions = filter (started_within date nextDate) (sessions a)
      in \<lparr> ds_date = date,
           ds_sessions = length daySessions,
           ds_messages = foldl (\<lambda>sum s. sum + length (messages s)) 0 daySessions,
           ds_toolCalls = foldl (\<lambda>sum s. sum + length (toolCalls s)) 0 daySessions,
           ds_tokens = foldl (\<lambda>sum s. sum + t_total (tokens s)) 0 daySessions,
           ds_cost = foldl (\<lambda>sum s. sum + cost s) 0 daySessions,
           ds_userMessages = foldl (\<lambda>sum s. sum + count_role ''user'' s) 0 daySessions,
           ds_assistantMessages =
             foldl (\<lambda>sum s. sum + count_role ''assistant'' s) 0 daySessions \<rparr>)"

function daily_loop :: "analytics \<Rightarrow> int \<Rightarrow> int \<Rightarrow> dailyStat list \<Rightarrow> dailyStat list" where
  "daily_loop a days i stats =
     (if i < days then daily_loop a days (i + 1) (stats @ [day_stat a i]) else stats)"
  by pat_completeness auto
termination
  by (relation "measure (\<lambda>(a, days, i, stats). nat (days - i))") auto

declare daily_loop.simps [simp del]

definition getDailyStats :: "analytics \<Rightarrow> int \<Rightarrow> dailyStat list" where
  "getDailyStats a days = rev (daily_loop a days 0 [])"

text \<open>
  \<open>toolCallCounts\<close>: an object used as a dictionary, kept as an association list in
  insertion order, the order in which \<open>Object.entries\<close> lists keys that are not
  integer-like. A missing name becomes the key \<open>undefined\<close>. Names that are properties
  of \<open>Object.prototype\<close> are outside the model.
\<close>

definition key_of :: "string option \<Rightarrow> string" where
  "key_of n = (case n of None \<Rightarrow> ''undefined'' | Some x \<Rightarrow> x)"

fun bump :: "string \<Rightarrow> (string \<times> nat) list \<Rightarrow> (string \<times> nat) list" where
  "bump k [] = [(k, 1)]"
| "bump k ((k', c) # kcs) = (if k = k' then (k', c + 1) # kcs else (k', c) # bump k kcs)"

definition count_toolCalls :: "session list \<Rightarrow> (string \<times> nat) list" where
  "count_toolCalls ss =
     foldl (\<lambda>counts s. foldl (\<lambda>cs tc. bump (key_of (tc_name tc)) cs) counts (toolCalls s)) [] ss"

text \<open>\<open>hourlyActivity[session.startTime.getHours()]++\<close>\<close>

definition bump_hour :: "int \<Rightarrow> nat list \<Rightarrow> session \<Rightarrow> nat list" where
  "bump_hour off h s =
     (case startTime s of
        Some (Date t) \<Rightarrow> h[getHours off t := h ! getHours off t + 1]
      | _ \<Rightarrow> h)"

definition hourly :: "int \<Rightarrow> session list \<Rightarrow> nat list" where
  "hourly off ss = foldl (bump_hour off) (replicate 24 0) ss"

text \<open>\<open>sort((a, b) => b[1] - a[1])\<close>: a stable sort, larger counts first.\<close>

definition sort_desc :: "(string \<times> nat) list \<Rightarrow> (string \<times> nat) list" where
  "sort_desc kcs = sort_key (\<lambda>kc. - int (snd kc)) kcs"

text \<open>
  \<open>hourlyActivity.indexOf(Math.max(...hourlyActivity))\<close>, for an array of counts that is
  never empty (it has 24 entries).
\<close>

fun indexOf :: "nat list \<Rightarrow> nat \<Rightarrow> int" where
  "indexOf [] v = - 1"
| "indexOf (x # xs) v = (if x = v then 0 else (let r = indexOf xs v in if r < 0 then r else r + 1))"

definition Math_max :: "nat list \<Rightarrow> nat" where
  "Math_max xs = foldl max 0 xs"

text \<open>\<open>Math.round\<close> rounds to the nearest integer, halves upwards.\<close>

definition Math_round :: "real \<Rightarrow> int" where
  "Math_round x = \<lfloor>x + 1 / 2\<rfloor>"

definition js_div :: "real \<Rightarrow> real \<Rightarrow> error + real" where
  "js_div x y = (if y = 0 then Inl DivisionByZero else Inr (x / y))"

definition bind_err :: "error + 'a \<Rightarrow> ('a \<Rightarrow> error + 'b) \<Rightarrow> error + 'b" where
  "bind_err r f = (case r of Inl e \<Rightarrow> Inl e | Inr v \<Rightarrow> f v)"

text \<open>\<open>[...new Set(xs)]\<close> keeps the first occurrence of each value.\<close>

fun dedup :: "'a list \<Rightarrow> 'a list" where
  "dedup [] = []"
| "dedup (x # xs) = x # removeAll x (dedup xs)"

text \<open>\<open>.filter(Boolean)\<close> on model names: \<open>null\<close> and the empty string go.\<close>

definition truthy_models :: "session list \<Rightarrow> string list" where
  "truthy_models ss = concat (map (\<lambda>s. case model s of None \<Rightarrow> [] | Some m \<Rightarrow> if m = [] then [] else [m]) ss)"

definition is_error_call :: "toolCall \<Rightarrow> bool" where
  "is_error_call tc = (case tc_result tc of None \<Rightarrow> False | Some r \<Rightarrow> r_isError r)"

record weeklySummary =
  totalSessions :: nat
  totalMessages :: nat
  totalToolCalls :: nat
  totalTokens :: real
  totalCost :: real
  avgTokensPerSession :: int
  avgMessagesPerSession :: int
  topTools :: "(string \<times> nat) list"
  peakHour :: int
  hourlyActivity :: "nat list"
  models :: "string list"
  toolErrors :: nat

text \<open>The two averages, each behind its guard.\<close>

definition avg_tokens :: "session list \<Rightarrow> error + int" where
  "avg_tokens ss =
     (if length ss > 0
      then bind_err (js_div (foldl (\<lambda>sum s. sum + t_total (tokens s)) 0 ss) (real (length ss)))
             (\<lambda>q. Inr (Math_round q))
      else Inr 0)"

definition avg_messages :: "session list \<Rightarrow> error + int" where
  "avg_messages ss =
     (if length ss > 0
      then bind_err (js_div (real (foldl (\<lambda>sum s. sum + length (messages s)) 0 ss)) (real (length ss)))
             (\<lambda>q. Inr (Math_round q))
      else Inr 0)"

definition getWeeklySummary :: "analytics \<Rightarrow> int \<Rightarrow> error + weeklySummary" where
  "getWeeklySummary a days =
     (let ss = filterByDays a days;
          toolCallCounts = count_toolCalls ss;
          hs = hourly (utcOffset a) ss
      in bind_err (avg_tokens ss) (\<lambda>avgT.
         bind_err (avg_messages ss) (\<lambda>avgM.
           Inr \<lparr> totalSessions = length ss,
                 totalMessages = foldl (\<lambda>sum s. sum + length (messages s)) 0 ss,
                 totalToolCalls = foldl (\<lambda>sum s. sum + length (toolCalls s)) 0 ss,
                 totalTokens = foldl (\<lambda>sum s. sum + t_total (tokens s)) 0 ss,
                 totalCost = foldl (\<lambda>sum s. sum + cost s) 0 ss,
                 avgTokensPerSession = avgT,
                 avgMessagesPerSession = avgM,
                 topTools = take 10 (sort_desc toolCallCounts),
                 peakHour = indexOf hs (Math_max hs),
                 hourlyActivity = hs,
                 models = dedup (truthy_models ss),
                 toolErrors =
                   foldl (\<lambda>sum s. sum + length (filter is_error_call (toolCalls s))) 0 ss \<rparr>)))"

section \<open>Anomaly rules (anomaly.js)\<close>

datatype severity = Low | Medium | High

text \<open>A finding. Its \<open>message\<close>, a text rendered from the other fields, is left out.\<close>

record anomaly =
  a_type :: string
  a_severity :: severity
  a_date :: "int option"
  a_value :: real
  a_threshold :: "real option"
  a_tool :: "string option"

fun token_loop :: "real \<Rightarrow> dailyStat list \<Rightarrow> anomaly list" where
  "token_loop avgDaily [] = []"
| "token_loop avgDaily (day # rest) =
     (if ds_tokens day > avgDaily * 3 \<and> ds_tokens day > 10000
      then [\<lparr> a_type = ''token_spike'', a_severity = Medium, a_date = Some (ds_date day),
              a_value = ds_tokens day, a_threshold = Some (avgDaily * 3), a_tool = None \<rparr>]
      else []) @ token_loop avgDaily rest"

definition detectTokenSpikes :: "dailyStat list \<Rightarrow> weeklySummary \<Rightarrow> anomaly list" where
  "detectTokenSpikes dailyStats weeklyStats = token_loop (totalTokens weeklyStats / 7) dailyStats"

definition error_rate :: "weeklySummary \<Rightarrow> error + real" where
  "error_rate weeklyStats =
     (if totalToolCalls weeklyStats > 0
      then js_div (real (toolErrors weeklyStats)) (real (totalToolCalls weeklyStats))
      else Inr 0)"

definition detectToolErrors :: "weeklySummary \<Rightarrow> error + anomaly list" where
  "detectToolErrors weeklyStats =
     bind_err (error_rate weeklyStats) (\<lambda>errorRate.
       Inr (if errorRate > 0.1 \<and> toolErrors weeklyStats > 5
            then [\<lparr> a_type = ''high_error_rate'', a_severity = High, a_date = None,
                    a_value = errorRate, a_threshold = Some 0.1, a_tool = None \<rparr>]
            else []))"

definition night_activity :: "weeklySummary \<Rightarrow> nat" where
  "night_activity weeklyStats = foldl (\<lambda>sum v. sum + v) 0 (take 6 (hourlyActivity weeklyStats))"

definition night_ratio :: "weeklySummary \<Rightarrow> error + real" where
  "night_ratio weeklyStats =
     (let totalActivity = foldl (\<lambda>sum v. sum + v) 0 (hourlyActivity weeklyStats)
      in if totalActivity > 0
         then js_div (real (night_activity weeklyStats)) (real totalActivity)
         else Inr 0)"

definition detectUnusualHours :: "weeklySummary \<Rightarrow> error + anomaly list" where
  "detectUnusualHours weeklyStats =
     bind_err (night_ratio weeklyStats) (\<lambda>nightRatio.
       Inr (if nightRatio > 0.3 \<and> night_activity weeklyStats > 5
            then [\<lparr> a_type = ''unusual_hours'', a_severity = Low, a_date = None,
                    a_value = nightRatio, a_threshold = Some 0.3, a_tool = None \<rparr>]
            else []))"

fun cost_loop :: "real \<Rightarrow> dailyStat list \<Rightarrow> anomaly list" where
  "cost_loop avgDaily [] = []"
| "cost_loop avgDaily (day # rest) =
     (if ds_cost day > avgDaily * 3 \<and> ds_cost day > 0.5
      then [\<lparr> a_type = ''cost_spike'', a_severity = High, a_date = Some (ds_date day),
              a_value = ds_cost day, a_threshold = Some (avgDaily * 3), a_tool = None \<rparr>]
      else []) @ cost_loop avgDaily rest"

definition detectCostSpikes :: "dailyStat list \<Rightarrow> weeklySummary \<Rightarrow> anomaly list" where
  "detectCostSpikes dailyStats weeklyStats = cost_loop (totalCost weeklyStats / 7) dailyStats"

definition gap_finding :: "dailyStat \<Rightarrow> nat \<Rightarrow> anomaly" where
  "gap_finding day consecutiveZero =
     \<lparr> a_type = ''activity_gap'', a_severity = Low, a_date = Some (ds_date day),
       a_value = real consecutiveZero, a_threshold = None, a_tool = None \<rparr>"

text \<open>The loop of \<open>detectActivityGaps\<close>; the first argument is \<open>consecutiveZero\<close>.\<close>

fun gap_loop :: "nat \<Rightarrow> dailyStat list \<Rightarrow> anomaly list" where
  "gap_loop consecutiveZero [] = []"
| "gap_loop consecutiveZero (day # rest) =
     (if ds_sessions day = 0
      then (if consecutiveZero + 1 \<ge> 2 then [gap_finding day (consecutiveZero + 1)] else [])
             @ gap_loop (consecutiveZero + 1) rest
      else gap_loop 0 rest)"

definition detectActivityGaps :: "dailyStat list \<Rightarrow> anomaly list" where
  "detectActivityGaps dailyStats = gap_loop 0 dailyStats"

text \<open>The loop over \<open>topTools\<close>: the division has no guard.\<close>

fun dominance_loop :: "weeklySummary \<Rightarrow> (string \<times> nat) list \<Rightarrow> error + anomaly list" where
  "dominance_loop weeklyStats [] = Inr []"
| "dominance_loop weeklyStats ((tool, count) # rest) =
     bind_err (js_div (real count) (real (totalToolCalls weeklyStats))) (\<lambda>ratio.
       bind_err (dominance_loop weeklyStats rest) (\<lambda>more.
         Inr ((if ratio > 0.5 \<and> count > 50
               then [\<lparr> a_type = ''tool_dominance'', a_severity = Low, a_date = None,
                       a_value = ratio, a_threshold = None, a_tool = Some tool \<rparr>]
               else []) @ more)))"

definition tools_per_session :: "weeklySummary \<Rightarrow> error + real" where
  "tools_per_session weeklyStats =
     (if totalSessions weeklyStats > 0
      then js_div (real (totalToolCalls weeklyStats)) (real (totalSessions weeklyStats))
      else Inr 0)"

definition frequency_findings :: "real \<Rightarrow> anomaly list" where
  "frequency_findings toolsPerSession =
     (if toolsPerSession > 100
      then [\<lparr> a_type = ''high_tool_frequency'', a_severity = Medium, a_date = None,
              a_value = toolsPerSession, a_threshold = Some 100, a_tool = None \<rparr>]
      else [])"

definition detectHighToolUsage :: "weeklySummary \<Rightarrow> error + anomaly list" where
  "detectHighToolUsage weeklyStats =
     bind_err (dominance_loop weeklyStats (topTools weeklyStats)) (\<lambda>dominant.
       bind_err (tools_per_session weeklyStats) (\<lambda>toolsPerSession.
         Inr (dominant @ frequency_findings toolsPerSession)))"

definition detect :: "analytics \<Rightarrow> error + anomaly list" where
  "detect a =
     bind_err (getWeeklySummary a 7) (\<lambda>weeklyStats.
       (let dailyStats = getDailyStats a 7;
            a1 = detectTokenSpikes dailyStats weeklyStats
        in bind_err (detectToolErrors weeklyStats) (\<lambda>a2.
           bind_err (detectUnusualHours weeklyStats) (\<lambda>a3.
             (let a4 = detectCostSpikes dailyStats weeklyStats;
                  a5 = detectActivityGaps dailyStats
              in bind_err (detectHighToolUsage weeklyStats) (\<lambda>a6.
                   Inr (a1 @ a2 @ a3 @ a4 @ a5 @ a6)))))))"

section \<open>Live counters (watcher.js)\<close>

record runningStats =
  w_messages :: nat
  w_toolCalls :: nat
  w_tokens :: real
  w_errors :: nat
  lastActivity :: "date option"

text \<open>
  \<open>processEntry\<close> updates the counters in place and its caller catches whatever it
  raises, so what was counted before an exception stays counted: the model returns the
  counters together with the exception, if any.
\<close>

fun watch_blocks :: "block list \<Rightarrow> runningStats \<Rightarrow> runningStats \<times> error option" where
  "watch_blocks [] st = (st, None)"
| "watch_blocks (NullBlock # bs) st = (st, Some TypeError)"
| "watch_blocks (Block ty i n # bs) st =
     watch_blocks bs (if ty = Some ''toolCall'' then st\<lparr>w_toolCalls := w_toolCalls st + 1\<rparr> else st)"

fun watch_content :: "content \<Rightarrow> runningStats \<Rightarrow> runningStats \<times> error option" where
  "watch_content (Blocks bs) st = watch_blocks bs st"
| "watch_content NoContent st = (st, None)"
| "watch_content (TextContent t) st = (st, None)"
| "watch_content (ScalarContent t) st = (if t then (st, Some TypeError) else (st, None))"

definition watch_assistant :: "msg \<Rightarrow> runningStats \<Rightarrow> runningStats \<times> error option" where
  "watch_assistant m st =
     (if role m = Some ''assistant''
      then (case watch_content (content m) st of
              (st1, Some e) \<Rightarrow> (st1, Some e)
            | (st1, None) \<Rightarrow>
                (case usage m of
                   None \<Rightarrow> (st1, None)
                 | Some u \<Rightarrow> (st1\<lparr>w_tokens := w_tokens st1 + or0 (u_totalTokens u)\<rparr>, None)))
      else (st, None))"

text \<open>\<open>clock\<close> is the time value of \<open>new Date()\<close>, used when the entry has no timestamp.\<close>

fun processEntry :: "runningStats \<Rightarrow> int \<Rightarrow> entry \<Rightarrow> runningStats \<times> error option" where
  "processEntry st clock NullEntry = (st, Some TypeError)"
| "processEntry st clock (Entry ts ty i mid prov mo) =
     (let st1 = st\<lparr>lastActivity := Some (case ts of Some d \<Rightarrow> d | None \<Rightarrow> Date clock)\<rparr>
      in case mo of
           None \<Rightarrow> (st1, None)
         | Some m \<Rightarrow>
             if ty = Some ''message''
             then (let st2 = (if role m = Some ''user''
                              then st1\<lparr>w_messages := w_messages st1 + 1\<rparr> else st1)
                   in case watch_assistant m st2 of
                        (st3, Some e) \<Rightarrow> (st3, Some e)
                      | (st3, None) \<Rightarrow>
                          (if role m = Some ''toolResult'' \<and> isError m
                           then st3\<lparr>w_errors := w_errors st3 + 1\<rparr> else st3, None))
             else (st1, None))"

section \<open>Notions used to state the properties\<close>

text \<open>
  The length of the run of consecutive zero-session days that ends at position \<open>i\<close> of a
  daily sequence (0 when day \<open>i\<close> has sessions).
\<close>

definition zero_run :: "dailyStat list \<Rightarrow> nat \<Rightarrow> nat" where
  "zero_run ds i = length (takeWhile (\<lambda>d. ds_sessions d = 0) (rev (take (Suc i) ds)))"

text \<open>The same with \<open>c\<close> zero-session days before the sequence.\<close>

definition run_from :: "nat \<Rightarrow> dailyStat list \<Rightarrow> nat \<Rightarrow> nat" where
  "run_from c ds i = (if zero_run ds i = Suc i then c + Suc i else zero_run ds i)"

text \<open>A day with \<open>n\<close> sessions and nothing else.\<close>

definition day_with :: "nat \<Rightarrow> dailyStat" where
  "day_with n = \<lparr> ds_date = 0, ds_sessions = n, ds_messages = 0, ds_toolCalls = 0,
     ds_tokens = 0, ds_cost = 0, ds_userMessages = 0, ds_assistantMessages = 0 \<rparr>"

text \<open>The message a decoded entry carries, when it is a message event.\<close>

definition message_of :: "entry \<Rightarrow> msg option" where
  "message_of e =
     (case e of
        NullEntry \<Rightarrow> None
      | Entry ts ty i mid prov mo \<Rightarrow> if ty = Some ''message'' then mo else None)"

text \<open>Sample values: live counters at zero, and a message event without a timestamp.\<close>

definition stats0 :: runningStats where
  "stats0 = \<lparr> w_messages = 0, w_toolCalls = 0, w_tokens = 0, w_errors = 0, lastActivity = None \<rparr>"

definition message_entry :: "msg \<Rightarrow> entry" where
  "message_entry m = Entry None (Some ''message'') None None None (Some m)"

definition user_msg :: msg where
  "user_msg = \<lparr> role = Some ''user'', content = TextContent ''hello'', usage = None,
     toolCallId = None, isError = False \<rparr>"

definition assistant_msg :: msg where
  "assistant_msg = \<lparr> role = Some ''assistant'',
     content = Blocks [Block (Some ''text'') None None, Block (Some ''toolCall'') (Some ''c1'') (Some ''exec'')],
     usage = Some \<lparr> u_input = Some 10, u_output = Some 5, u_cacheRead = None, u_cacheWrite = None,
                    u_totalTokens = Some 15, u_cost_total = Some (1 / 4) \<rparr>,
     toolCallId = None, isError = False \<rparr>"

definition toolResult_msg :: msg where
  "toolResult_msg = \<lparr> role = Some ''toolResult'', content = NoContent, usage = None,
     toolCallId = Some ''c1'', isError = True \<rparr>"

text \<open>A row with no activity, and the local midnight that opens the bucket \<open>i\<close> days back.\<close>

definition zero_row :: "int \<Rightarrow> dailyStat" where
  "zero_row date = \<lparr> ds_date = date, ds_sessions = 0, ds_messages = 0, ds_toolCalls = 0,
     ds_tokens = 0, ds_cost = 0, ds_userMessages = 0, ds_assistantMessages = 0 \<rparr>"


text \<open>Sample values: a session that holds nothing but its start time.\<close>

definition plain_session :: "date option \<Rightarrow> session" where
  "plain_session st = (init_session ''s'' ''s.jsonl'')\<lparr>startTime := st, endTime := st\<rparr>"


text \<open>
  The window as the specification words it: the start time lies in the closed interval
  from \<open>days\<close> days before the reference time to the reference time.
\<close>

definition closed_window :: "analytics \<Rightarrow> int \<Rightarrow> session \<Rightarrow> bool" where
  "closed_window a days s =
     (case startTime s of
        Some (Date t) \<Rightarrow> now a - days * DAY \<le> t \<and> t \<le> now a
      | _ \<Rightarrow> False)"

text \<open>The same analytics without the sessions that have no start time.\<close>

definition with_start_only :: "analytics \<Rightarrow> analytics" where
  "with_start_only a = a\<lparr>sessions := filter (\<lambda>s. startTime s \<noteq> None) (sessions a)\<rparr>"

text \<open>Sample values: a session that starts one second after the reference time.\<close>

definition future_analytics :: analytics where
  "future_analytics = \<lparr> sessions = [plain_session (Some (Date 1000))], now = 0,
       tzaUTC = (\<lambda>t. 0), tzaLocal = (\<lambda>l. 0) \<rparr>"




text \<open>
  The usage deltas a file's assistant messages carry, in file order, and what each adds
  to the total-token and cost figures (a missing field adds nothing).
\<close>

definition assistant_usages :: "entry list \<Rightarrow> usage list" where
  "assistant_usages es =
     concat (map (\<lambda>e. case message_of e of
                          None \<Rightarrow> []
                        | Some m \<Rightarrow>
                            if role m = Some ''assistant''
                            then (case usage m of None \<Rightarrow> [] | Some u \<Rightarrow> [u])
                            else []) es)"

definition usage_total :: "usage \<Rightarrow> real" where
  "usage_total u = or0 (u_totalTokens u)"

definition usage_cost :: "usage \<Rightarrow> real" where
  "usage_cost u = or0 (u_cost_total u)"

text \<open>
  A well-formed entry: an object, whose message (if it is a message event) has no
  content or an array of blocks none of which is \<open>null\<close>.
\<close>

fun well_formed_content :: "content \<Rightarrow> bool" where
  "well_formed_content NoContent = True"
| "well_formed_content (Blocks bs) = (NullBlock \<notin> set bs)"
| "well_formed_content _ = False"

definition well_formed_entry :: "entry \<Rightarrow> bool" where
  "well_formed_entry e =
     (e \<noteq> NullEntry \<and> (case message_of e of None \<Rightarrow> True | Some m \<Rightarrow> well_formed_content (content m)))"

text \<open>Sample values: a session file of four lines.\<close>

definition sample_lines :: "entry list" where
  "sample_lines =
     [Entry (Some (Date 1000)) (Some ''session'') (Some ''abc'') None None None,
      message_entry assistant_msg, message_entry toolResult_msg, message_entry assistant_msg]"

text \<open>
  The state of the two time fields that the builder can reach: both unset, both the
  invalid date, or both valid and in order.
\<close>

fun times_ok :: "date option \<Rightarrow> date option \<Rightarrow> bool" where
  "times_ok None None = True"
| "times_ok (Some InvalidDate) (Some InvalidDate) = True"
| "times_ok (Some (Date a)) (Some (Date b)) = (a \<le> b)"
| "times_ok _ _ = False"

text \<open>A usage delta without a negative field; the order of token records, field by field.\<close>

definition usage_nonneg :: "usage \<Rightarrow> bool" where
  "usage_nonneg u =
     (0 \<le> or0 (u_input u) \<and> 0 \<le> or0 (u_output u) \<and> 0 \<le> or0 (u_cacheRead u)
      \<and> 0 \<le> or0 (u_cacheWrite u) \<and> 0 \<le> or0 (u_totalTokens u) \<and> 0 \<le> or0 (u_cost_total u))"

definition tokens_le :: "tokenUsage \<Rightarrow> tokenUsage \<Rightarrow> bool" where
  "tokens_le x y =
     (t_input x \<le> t_input y \<and> t_output x \<le> t_output y \<and> t_cacheRead x \<le> t_cacheRead y
      \<and> t_cacheWrite x \<le> t_cacheWrite y \<and> t_total x \<le> t_total y)"

text \<open>
  Sample values: an assistant message whose usage reports a negative token total, and a
  file whose second line is stamped earlier than its first.
\<close>

definition refund_msg :: msg where
  "refund_msg = \<lparr> role = Some ''assistant'', content = NoContent,
     usage = Some \<lparr> u_input = None, u_output = None, u_cacheRead = None, u_cacheWrite = None,
                    u_totalTokens = Some (- 5), u_cost_total = None \<rparr>,
     toolCallId = None, isError = False \<rparr>"

definition timed_lines :: "entry list" where
  "timed_lines =
     [Entry (Some (Date 2000)) (Some ''session'') (Some ''abc'') None None None,
      Entry (Some (Date 1000)) (Some ''message'') None None None (Some assistant_msg)]"

text \<open>
  The ToolCalls that an event's own content blocks produce, in order, and the Result a
  tool-result event carries.
\<close>

fun call_of :: "date \<Rightarrow> block \<Rightarrow> toolCall list" where
  "call_of d NullBlock = []"
| "call_of d (Block ty i n) =
     (if ty = Some ''toolCall''
      then [\<lparr> tc_id = i, tc_name = n, tc_timestamp = d, tc_result = None \<rparr>] else [])"

definition content_calls :: "date \<Rightarrow> content \<Rightarrow> toolCall list" where
  "content_calls d c = (case c of Blocks bs \<Rightarrow> concat (map (call_of d) bs) | _ \<Rightarrow> [])"

definition entry_calls :: "entry \<Rightarrow> toolCall list" where
  "entry_calls e =
     (case e of
        NullEntry \<Rightarrow> []
      | Entry ts ty i mid prov mo \<Rightarrow>
          (case message_of e of
             None \<Rightarrow> []
           | Some m \<Rightarrow> content_calls (entry_date ts) (content m)))"

definition entry_result :: "entry \<Rightarrow> msg \<Rightarrow> result" where
  "entry_result e m =
     \<lparr> r_isError = isError m,
       r_timestamp = (case e of NullEntry \<Rightarrow> InvalidDate
                      | Entry ts ty i mid prov mo \<Rightarrow> entry_date ts) \<rparr>"

text \<open>
  Sample values: a tool-result message that carries the invocation it answers, and one
  that answers a call never made.
\<close>

definition self_result_msg :: msg where
  "self_result_msg = \<lparr> role = Some ''toolResult'',
     content = Blocks [Block (Some ''toolCall'') (Some ''c9'') (Some ''exec'')],
     usage = None, toolCallId = Some ''c9'', isError = False \<rparr>"

definition stray_result_msg :: msg where
  "stray_result_msg = \<lparr> role = Some ''toolResult'', content = NoContent, usage = None,
     toolCallId = Some ''zz'', isError = True \<rparr>"

text \<open>
  The detector with its findings concatenated in the order of the specification's table:
  token spike, cost spike, high error rate, unusual hours, activity gap, tool dominance,
  high call frequency.
\<close>

definition detect_in_table_order :: "analytics \<Rightarrow> error + anomaly list" where
  "detect_in_table_order a =
     bind_err (getWeeklySummary a 7) (\<lambda>weeklyStats.
       (let dailyStats = getDailyStats a 7
        in bind_err (detectToolErrors weeklyStats) (\<lambda>errors.
           bind_err (detectUnusualHours weeklyStats) (\<lambda>hours.
           bind_err (detectHighToolUsage weeklyStats) (\<lambda>usage.
             Inr (detectTokenSpikes dailyStats weeklyStats @ detectCostSpikes dailyStats weeklyStats
                  @ errors @ hours @ detectActivityGaps dailyStats @ usage))))))"

text \<open>
  Sample values: no sessions at all; and one session, just started, that cost one
  currency unit and made six tool calls, all failed.
\<close>

definition empty_analytics :: analytics where
  "empty_analytics = \<lparr> sessions = [], now = 172800010, tzaUTC = (\<lambda>t. 0), tzaLocal = (\<lambda>l. 0) \<rparr>"

definition error_call :: toolCall where
  "error_call = \<lparr> tc_id = Some ''c'', tc_name = Some ''exec'', tc_timestamp = InvalidDate,
     tc_result = Some \<lparr> r_isError = True, r_timestamp = InvalidDate \<rparr> \<rparr>"

definition busy_session :: session where
  "busy_session = (plain_session (Some (Date 172800005)))
     \<lparr>toolCalls := [error_call, error_call, error_call, error_call, error_call, error_call],
      cost := 1\<rparr>"

definition busy_analytics :: analytics where
  "busy_analytics = \<lparr> sessions = [busy_session], now = 172800010, tzaUTC = (\<lambda>t. 0), tzaLocal = (\<lambda>l. 0) \<rparr>"

text \<open>
  Sample values: a summary that lists a tool with 60 calls though its tool-call total
  is zero.
\<close>

definition orphan_summary :: weeklySummary where
  "orphan_summary = \<lparr> totalSessions = 1, totalMessages = 0, totalToolCalls = 0, totalTokens = 0,
     totalCost = 0, avgTokensPerSession = 0, avgMessagesPerSession = 0,
     topTools = [(''exec'', 60)], peakHour = 0, hourlyActivity = replicate 24 0, models = [],
     toolErrors = 0 \<rparr>"

section \<open>The activity-gap rule\<close>

lemma length_takeWhile_all: "length (takeWhile P xs) = length xs \<longleftrightarrow> (\<forall>x\<in>set xs. P x)"
proof
  assume "length (takeWhile P xs) = length xs"
  then have "takeWhile P xs = xs"
    by (metis takeWhile_dropWhile_id append_eq_conv_conj take_all_iff order_refl length_takeWhile_le append_Nil2 length_append add_diff_cancel_left' length_0_conv)
  then show "\<forall>x\<in>set xs. P x" by (simp add: takeWhile_eq_all_conv)
next
  assume "\<forall>x\<in>set xs. P x"
  then show "length (takeWhile P xs) = length xs" by (simp add: takeWhile_eq_all_conv[THEN iffD2])
qed

lemma zero_run_le: "zero_run ds i \<le> Suc i"
proof -
  have "zero_run ds i \<le> length (rev (take (Suc i) ds))"
    unfolding zero_run_def by (rule length_takeWhile_le)
  then show ?thesis by simp
qed

lemma zero_run_full:
  assumes "i < length ds"
  shows "zero_run ds i = Suc i \<longleftrightarrow> (\<forall>x\<in>set (take (Suc i) ds). ds_sessions x = 0)"
proof -
  have "length (rev (take (Suc i) ds)) = Suc i" using assms by simp
  then have "zero_run ds i = Suc i \<longleftrightarrow>
     length (takeWhile (\<lambda>d. ds_sessions d = 0) (rev (take (Suc i) ds))) = length (rev (take (Suc i) ds))"
    unfolding zero_run_def by simp
  also have "\<dots> \<longleftrightarrow> (\<forall>x\<in>set (rev (take (Suc i) ds)). ds_sessions x = 0)"
    by (rule length_takeWhile_all)
  finally show ?thesis by simp
qed

lemma zero_run_Cons_Suc:
  assumes "i < length ds"
  shows "zero_run (d # ds) (Suc i) =
     (if zero_run ds i = Suc i \<and> ds_sessions d = 0 then Suc (Suc i) else zero_run ds i)"
proof (cases "\<forall>x\<in>set (take (Suc i) ds). ds_sessions x = 0")
  case True
  have "takeWhile (\<lambda>d. ds_sessions d = 0) (rev (take (Suc i) ds) @ [d]) =
        rev (take (Suc i) ds) @ takeWhile (\<lambda>d. ds_sessions d = 0) [d]"
    by (rule takeWhile_append2) (use True in simp)
  then have "zero_run (d # ds) (Suc i) = Suc i + length (takeWhile (\<lambda>d. ds_sessions d = 0) [d])"
    unfolding zero_run_def using assms by simp
  moreover from True assms have "zero_run ds i = Suc i" by (simp add: zero_run_full)
  ultimately show ?thesis by simp
next
  case False
  then obtain x where "x \<in> set (rev (take (Suc i) ds))" "\<not> ds_sessions x = 0"
    by auto
  then have "takeWhile (\<lambda>d. ds_sessions d = 0) (rev (take (Suc i) ds) @ [d]) =
        takeWhile (\<lambda>d. ds_sessions d = 0) (rev (take (Suc i) ds))"
    by (rule takeWhile_append1)
  then have "zero_run (d # ds) (Suc i) = zero_run ds i"
    unfolding zero_run_def by simp
  moreover from False assms have "zero_run ds i \<noteq> Suc i" by (simp add: zero_run_full)
  ultimately show ?thesis by simp
qed

lemma run_from_Cons_Suc:
  "i < length ds \<Longrightarrow> run_from c (d # ds) (Suc i) =
     run_from (if ds_sessions d = 0 then Suc c else 0) ds i"
  using zero_run_le[of ds i]
  by (auto simp: run_from_def zero_run_Cons_Suc)

lemma run_from_0: "run_from c (d # ds) 0 = (if ds_sessions d = 0 then Suc c else 0)"
  by (simp add: run_from_def zero_run_def)

lemma upt_0_Suc: "[0..<Suc n] = 0 # map Suc [0..<n]"
  by (simp add: upt_conv_Cons map_Suc_upt del: upt_Suc)

lemma gap_loop_run:
  "gap_loop c ds =
     map (\<lambda>i. gap_finding (ds ! i) (run_from c ds i))
       (filter (\<lambda>i. 2 \<le> run_from c ds i) [0..<length ds])"
proof (induction ds arbitrary: c)
  case Nil
  show ?case by simp
next
  case (Cons d ds)
  let ?c' = "if ds_sessions d = 0 then Suc c else 0"
  have shift: "filter (\<lambda>i. 2 \<le> run_from c (d # ds) i) (map Suc [0..<length ds]) =
               map Suc (filter (\<lambda>i. 2 \<le> run_from ?c' ds i) [0..<length ds])"
    unfolding filter_map o_def
    by (rule arg_cong[where f="map Suc"], rule filter_cong) (simp_all add: run_from_Cons_Suc)
  have tail: "map (\<lambda>i. gap_finding ((d # ds) ! i) (run_from c (d # ds) i))
                (map Suc (filter (\<lambda>i. 2 \<le> run_from ?c' ds i) [0..<length ds])) = gap_loop ?c' ds"
    unfolding Cons.IH[of ?c'] map_map o_def
    by (rule map_cong) (simp_all add: run_from_Cons_Suc)
  have split: "map (\<lambda>i. gap_finding ((d # ds) ! i) (run_from c (d # ds) i))
       (filter (\<lambda>i. 2 \<le> run_from c (d # ds) i) [0..<length (d # ds)]) =
       (if 2 \<le> run_from c (d # ds) 0 then [gap_finding d (run_from c (d # ds) 0)] else []) @ gap_loop ?c' ds"
  proof (cases "2 \<le> run_from c (d # ds) 0")
    case True
    then show ?thesis
      by (simp only: length_Cons upt_0_Suc filter.simps shift tail list.map nth_Cons_0
            append_Cons append_Nil if_True)
  next
    case False
    then show ?thesis
      by (simp only: length_Cons upt_0_Suc filter.simps shift tail list.map nth_Cons_0
            append_Cons append_Nil if_False)
  qed
  show ?case
    unfolding split by (simp add: run_from_0)
qed

lemma detectActivityGaps_zero_run:
  "detectActivityGaps ds =
     map (\<lambda>i. gap_finding (ds ! i) (zero_run ds i))
       (filter (\<lambda>i. 2 \<le> zero_run ds i) [0..<length ds])"
  unfolding detectActivityGaps_def gap_loop_run
  by (simp add: run_from_def cong: if_cong)


lemma gap_loop_zeros:
  "\<forall>d\<in>set zs. ds_sessions d = 0 \<Longrightarrow>
     length (gap_loop c (zs @ rest)) =
       (c + length zs - 1) - (c - 1) + length (gap_loop (c + length zs) rest)"
proof (induction zs arbitrary: c)
  case Nil
  show ?case by simp
next
  case (Cons z zs)
  then have "length (gap_loop (Suc c) (zs @ rest)) =
       (Suc c + length zs - 1) - (Suc c - 1) + length (gap_loop (Suc c + length zs) rest)"
    by simp
  with Cons.prems show ?case by (cases c) simp_all
qed

lemma gap_loop_restart:
  "rest = [] \<or> ds_sessions (hd rest) \<noteq> 0 \<Longrightarrow> gap_loop c rest = gap_loop 0 rest"
  by (cases rest) auto

lemma gap_loop_append:
  "pre \<noteq> [] \<Longrightarrow> ds_sessions (last pre) \<noteq> 0 \<Longrightarrow>
     gap_loop c (pre @ xs) = gap_loop c pre @ gap_loop 0 xs"
proof (induction pre arbitrary: c)
  case Nil
  then show ?case by simp
next
  case (Cons p pre)
  show ?case
  proof (cases "pre = []")
    case True
    with Cons.prems show ?thesis by simp
  next
    case False
    with Cons.prems have "ds_sessions (last pre) \<noteq> 0" by simp
    with False show ?thesis by (simp add: Cons.IH)
  qed
qed

lemma gap_run_count:
  assumes "pre = [] \<or> ds_sessions (last pre) \<noteq> 0"
    and "\<forall>d\<in>set zs. ds_sessions d = 0"
    and "post = [] \<or> ds_sessions (hd post) \<noteq> 0"
  shows "length (detectActivityGaps (pre @ zs @ post)) =
     length (detectActivityGaps pre) + (length zs - 1) + length (detectActivityGaps post)"
proof -
  have "gap_loop 0 (pre @ zs @ post) = gap_loop 0 pre @ gap_loop 0 (zs @ post)"
    using assms(1) by (cases "pre = []") (simp_all add: gap_loop_append)
  moreover have "length (gap_loop 0 (zs @ post)) = (length zs - 1) + length (gap_loop (length zs) post)"
    using gap_loop_zeros[OF assms(2), of 0 post] by simp
  moreover have "gap_loop (length zs) post = gap_loop 0 post"
    using assms(3) by (rule gap_loop_restart)
  ultimately show ?thesis by (simp add: detectActivityGaps_def)
qed

text \<open>
  C7. The activity-gap rule emits one finding, of low severity, for each day position at
  which the run of consecutive zero-session days ending there has length at least 2, in
  the order of the days, and nothing else; so a maximal run of \<open>L\<close> zero-session days
  contributes \<open>L - 1\<close> findings (none when \<open>L\<close> is 0 or 1).
\<close>

theorem detectActivityGaps_runs:
  "detectActivityGaps ds =
     map (\<lambda>i. gap_finding (ds ! i) (zero_run ds i))
       (filter (\<lambda>i. 2 \<le> zero_run ds i) [0..<length ds])
   \<and> (\<forall>f\<in>set (detectActivityGaps ds). a_severity f = Low \<and> a_type f = ''activity_gap'')
   \<and> ((pre = [] \<or> ds_sessions (last pre) \<noteq> 0) \<and> (\<forall>d\<in>set zs. ds_sessions d = 0)
        \<and> (post = [] \<or> ds_sessions (hd post) \<noteq> 0) \<longrightarrow>
      length (detectActivityGaps (pre @ zs @ post)) =
        length (detectActivityGaps pre) + (length zs - 1) + length (detectActivityGaps post))"
proof (intro conjI impI)
  show "detectActivityGaps ds =
     map (\<lambda>i. gap_finding (ds ! i) (zero_run ds i))
       (filter (\<lambda>i. 2 \<le> zero_run ds i) [0..<length ds])"
    by (rule detectActivityGaps_zero_run)
  show "\<forall>f\<in>set (detectActivityGaps ds). a_severity f = Low \<and> a_type f = ''activity_gap''"
    unfolding detectActivityGaps_zero_run by (auto simp: gap_finding_def)
next
  assume "(pre = [] \<or> ds_sessions (last pre) \<noteq> 0) \<and> (\<forall>d\<in>set zs. ds_sessions d = 0)
        \<and> (post = [] \<or> ds_sessions (hd post) \<noteq> 0)"
  then show "length (detectActivityGaps (pre @ zs @ post)) =
        length (detectActivityGaps pre) + (length zs - 1) + length (detectActivityGaps post)"
    by (intro gap_run_count) simp_all
qed

theorem detectActivityGaps_runs_witness:
  "map ds_sessions (map day_with [5, 0, 0, 0]) = [5, 0, 0, 0]
   \<and> map a_value (detectActivityGaps (map day_with [5, 0, 0, 0, 2, 0])) = [2, 3]
   \<and> map a_severity (detectActivityGaps (map day_with [5, 0, 0, 0, 2, 0])) = [Low, Low]
   \<and> length (detectActivityGaps (map day_with [5] @ map day_with [0, 0, 0] @ map day_with [2, 0]))
       = length (detectActivityGaps (map day_with [5])) + (3 - 1)
         + length (detectActivityGaps (map day_with [2, 0]))"
proof -
  note count = detectActivityGaps_runs
    [of "map day_with [5, 0, 0, 0, 2, 0]" "map day_with [5]" "map day_with [0, 0, 0]"
        "map day_with [2, 0]", THEN conjunct2, THEN conjunct2, THEN mp]
  have "length (detectActivityGaps (map day_with [5] @ map day_with [0, 0, 0] @ map day_with [2, 0]))
       = length (detectActivityGaps (map day_with [5])) + (length (map day_with [0, 0, 0]) - 1)
         + length (detectActivityGaps (map day_with [2, 0]))"
    by (rule count) (simp add: day_with_def)
  moreover have "map a_value (detectActivityGaps (map day_with [5, 0, 0, 0, 2, 0])) = [2, 3]"
    by (simp add: detectActivityGaps_def day_with_def gap_finding_def)
  moreover have "map a_severity (detectActivityGaps (map day_with [5, 0, 0, 0, 2, 0])) = [Low, Low]"
    by (simp add: detectActivityGaps_def day_with_def gap_finding_def)
  moreover have "map ds_sessions (map day_with [5, 0, 0, 0]) = [5, 0, 0, 0]"
    by (simp add: day_with_def)
  ultimately show ?thesis by simp
qed

section \<open>The live counters\<close>

lemma watch_blocks_keeps:
  "watch_blocks bs st = (st', r) \<Longrightarrow>
     w_messages st' = w_messages st \<and> w_errors st' = w_errors st \<and> w_tokens st' = w_tokens st
     \<and> lastActivity st' = lastActivity st"
  by (induction bs st rule: watch_blocks.induct) (auto split: if_splits)

lemma watch_content_keeps:
  "watch_content c st = (st', r) \<Longrightarrow>
     w_messages st' = w_messages st \<and> w_errors st' = w_errors st \<and> w_tokens st' = w_tokens st
     \<and> lastActivity st' = lastActivity st"
  by (cases c) (auto dest: watch_blocks_keeps split: if_splits)

lemma watch_assistant_keeps:
  "watch_assistant m st = (st', r) \<Longrightarrow>
     w_messages st' = w_messages st \<and> w_errors st' = w_errors st"
  unfolding watch_assistant_def
  by (auto dest!: watch_content_keeps split: if_splits prod.splits option.splits)

lemma watch_assistant_other:
  "role m \<noteq> Some ''assistant'' \<Longrightarrow> watch_assistant m st = (st, None)"
  by (simp add: watch_assistant_def)

lemma update_message_appends:
  "update_message ts m s = Inr s' \<Longrightarrow>
     messages s' = messages s @ [\<lparr> m_role = role m, m_timestamp = entry_date ts,
        hasToolCalls = (case content_hasToolCalls (content m) of Inr h \<Rightarrow> h | Inl e \<Rightarrow> False) \<rparr>]"
  unfolding update_message_def update_usage_def add_usage_def
  by (auto simp: Let_def split: sum.splits option.splits if_splits)

lemma attach_result_messages: "messages (attach_result ts m s) = messages s"
  by (simp add: attach_result_def split: option.splits)

text \<open>
  C10. In the live path a decoded message event adds one to the \<open>messages\<close> counter
  exactly when its role is \<open>user\<close>. An assistant message leaves \<open>messages\<close> and
  \<open>errors\<close> as they were (it can only move the tool-call and token counters), and a
  tool-result message leaves \<open>messages\<close>, the tool-call and the token counter as they
  were and adds one to \<open>errors\<close> when it is an error. In the batch path every message
  event that is folded appends a Message, whatever its role.
\<close>

theorem hot_path_counts_user_messages:
  "w_messages (fst (processEntry st clock e)) =
     (if \<exists>m. message_of e = Some m \<and> role m = Some ''user'' then w_messages st + 1 else w_messages st)
   \<and> (\<forall>m. message_of e = Some m \<and> role m = Some ''assistant'' \<longrightarrow>
         w_messages (fst (processEntry st clock e)) = w_messages st
         \<and> w_errors (fst (processEntry st clock e)) = w_errors st)
   \<and> (\<forall>m. message_of e = Some m \<and> role m = Some ''toolResult'' \<longrightarrow>
         w_messages (fst (processEntry st clock e)) = w_messages st
         \<and> w_toolCalls (fst (processEntry st clock e)) = w_toolCalls st
         \<and> w_tokens (fst (processEntry st clock e)) = w_tokens st
         \<and> w_errors (fst (processEntry st clock e)) = (if isError m then w_errors st + 1 else w_errors st))
   \<and> (\<forall>m s s'. message_of e = Some m \<and> process_entry s e = Inr s' \<longrightarrow>
         length (messages s') = length (messages s) + 1 \<and> m_role (last (messages s')) = role m)"
proof (cases e)
  case NullEntry
  then show ?thesis by (simp add: message_of_def)
next
  case (Entry ts ty i mid prov mo)
  show ?thesis
  proof (cases "message_of e")
    case None
    with Entry show ?thesis
      by (auto simp: message_of_def Let_def split: option.splits if_splits)
  next
    case (Some m)
    with Entry have ty: "ty = Some ''message''" and mo: "mo = Some m"
      by (auto simp: message_of_def split: if_splits)
    obtain st3 r where wa: "watch_assistant m
        (if role m = Some ''user''
         then (st\<lparr>lastActivity := Some (case ts of Some d \<Rightarrow> d | None \<Rightarrow> Date clock)\<rparr>)
              \<lparr>w_messages := w_messages st + 1\<rparr>
         else st\<lparr>lastActivity := Some (case ts of Some d \<Rightarrow> d | None \<Rightarrow> Date clock)\<rparr>) = (st3, r)"
      by (cases "watch_assistant m
        (if role m = Some ''user''
         then (st\<lparr>lastActivity := Some (case ts of Some d \<Rightarrow> d | None \<Rightarrow> Date clock)\<rparr>)
              \<lparr>w_messages := w_messages st + 1\<rparr>
         else st\<lparr>lastActivity := Some (case ts of Some d \<Rightarrow> d | None \<Rightarrow> Date clock)\<rparr>)") auto
    note keep = watch_assistant_keeps[OF wa]
    have hot: "w_messages (fst (processEntry st clock e)) =
        (if role m = Some ''user'' then w_messages st + 1 else w_messages st)"
      using keep wa by (cases r) (auto simp: Entry ty mo Let_def)
    have asst: "role m = Some ''assistant'' \<Longrightarrow> w_errors (fst (processEntry st clock e)) = w_errors st"
      using keep wa by (cases r) (auto simp: Entry ty mo Let_def)
    have tres: "role m = Some ''toolResult'' \<Longrightarrow>
         w_toolCalls (fst (processEntry st clock e)) = w_toolCalls st
         \<and> w_tokens (fst (processEntry st clock e)) = w_tokens st
         \<and> w_errors (fst (processEntry st clock e)) = (if isError m then w_errors st + 1 else w_errors st)"
      by (simp add: Entry ty mo Let_def watch_assistant_other)
    have cold: "process_entry s e = Inr s' \<Longrightarrow>
         length (messages s') = length (messages s) + 1 \<and> m_role (last (messages s')) = role m" for s s'
      by (auto simp: Entry ty mo Let_def attach_result_messages update_times_def
            update_meta_def update_model_def
            split: sum.splits option.splits if_splits dest!: update_message_appends)
    show ?thesis using hot asst tres cold Some by auto
  qed
qed

theorem hot_path_counts_user_messages_witness:
  "message_of (message_entry user_msg) = Some user_msg
   \<and> w_messages (fst (processEntry stats0 0 (message_entry user_msg))) = 1
   \<and> w_messages (fst (processEntry stats0 0 (message_entry assistant_msg))) = 0
   \<and> w_toolCalls (fst (processEntry stats0 0 (message_entry assistant_msg))) = 1
   \<and> w_tokens (fst (processEntry stats0 0 (message_entry assistant_msg))) = 15
   \<and> w_messages (fst (processEntry stats0 0 (message_entry toolResult_msg))) = 0
   \<and> w_errors (fst (processEntry stats0 0 (message_entry toolResult_msg))) = 1
   \<and> (\<exists>s'. process_entry (init_session [] []) (message_entry toolResult_msg) = Inr s'
          \<and> length (messages s') = 1)"
proof -
  have mu: "message_of (message_entry user_msg) = Some user_msg"
    and ma: "message_of (message_entry assistant_msg) = Some assistant_msg"
    and mt: "message_of (message_entry toolResult_msg) = Some toolResult_msg"
    by (simp_all add: message_of_def message_entry_def)
  have ru: "role user_msg = Some ''user''" and ra: "role assistant_msg = Some ''assistant''"
    and rt: "role toolResult_msg = Some ''toolResult''"
    by (simp_all add: user_msg_def assistant_msg_def toolResult_msg_def)
  have z: "w_messages stats0 = 0" by (simp add: stats0_def)
  have "w_messages (fst (processEntry stats0 0 (message_entry user_msg))) = 1"
    using hot_path_counts_user_messages[of stats0 0 "message_entry user_msg", THEN conjunct1]
    by (simp add: mu ru z)
  moreover have "w_messages (fst (processEntry stats0 0 (message_entry assistant_msg))) = 0"
    using hot_path_counts_user_messages[of stats0 0 "message_entry assistant_msg", THEN conjunct1]
    by (simp add: ma ra z)
  moreover have "w_messages (fst (processEntry stats0 0 (message_entry toolResult_msg))) = 0"
    using hot_path_counts_user_messages[of stats0 0 "message_entry toolResult_msg", THEN conjunct1]
    by (simp add: mt rt z)
  moreover have "w_errors (fst (processEntry stats0 0 (message_entry toolResult_msg))) = 1"
    by (simp add: message_entry_def toolResult_msg_def stats0_def watch_assistant_def)
  moreover have "w_toolCalls (fst (processEntry stats0 0 (message_entry assistant_msg))) = 1"
    by (simp add: message_entry_def assistant_msg_def stats0_def watch_assistant_def)
  moreover have "w_tokens (fst (processEntry stats0 0 (message_entry assistant_msg))) = 15"
    by (simp add: message_entry_def assistant_msg_def stats0_def watch_assistant_def or0_def)
  moreover have "\<exists>s'. process_entry (init_session [] []) (message_entry toolResult_msg) = Inr s'
          \<and> length (messages s') = 1"
    by (simp add: message_entry_def toolResult_msg_def init_session_def update_times_def
          update_meta_def update_model_def update_message_def update_usage_def attach_result_def)
  ultimately show ?thesis using mu by simp
qed

section \<open>Daily buckets\<close>



lemma daily_loop_eq:
  "daily_loop a days i stats = stats @ map (\<lambda>k. day_stat a (i + int k)) [0..<nat (days - i)]"
proof (induction a days i stats rule: daily_loop.induct)
  case (1 a days i stats)
  show ?case
  proof (cases "i < days")
    case True
    then have n: "nat (days - i) = Suc (nat (days - (i + 1)))" by simp
    have "map (\<lambda>k. day_stat a (i + int k)) [0..<Suc (nat (days - (i + 1)))] =
          day_stat a i # map (\<lambda>k. day_stat a (i + 1 + int k)) [0..<nat (days - (i + 1))]"
      unfolding upt_0_Suc by (simp add: o_def algebra_simps)
    with True "1.IH" n show ?thesis
      by (subst daily_loop.simps) simp
  next
    case False
    then show ?thesis by (subst daily_loop.simps) simp
  qed
qed

lemma getDailyStats_eq:
  "getDailyStats a days = map (\<lambda>k. day_stat a (days - 1 - int k)) [0..<nat days]"
proof (rule nth_equalityI)
  show "length (getDailyStats a days) = length (map (\<lambda>k. day_stat a (days - 1 - int k)) [0..<nat days])"
    by (simp add: getDailyStats_def daily_loop_eq)
next
  fix k assume "k < length (getDailyStats a days)"
  then have k: "k < nat days" by (simp add: getDailyStats_def daily_loop_eq)
  then have "nat days - Suc k < nat days" by simp
  moreover have "int (nat days - Suc k) = days - 1 - int k" using k by linarith
  ultimately show "getDailyStats a days ! k = map (\<lambda>k. day_stat a (days - 1 - int k)) [0..<nat days] ! k"
    using k by (simp add: getDailyStats_def daily_loop_eq rev_nth algebra_simps)
qed

lemma foldl_plus_sum_list:
  fixes f :: "'a \<Rightarrow> 'b::comm_monoid_add"
  shows "foldl (\<lambda>sum s. sum + f s) z xs = z + sum_list (map f xs)"
  by (induction xs arbitrary: z) (simp_all add: add.assoc)






section \<open>The trailing window\<close>

lemma date_ge_InvalidDate: "\<not> date_ge d InvalidDate"
  by (cases d) simp_all

lemma started_since_iff:
  "started_since (Date c) s \<longleftrightarrow> (\<exists>t. startTime s = Some (Date t) \<and> c \<le> t)"
proof (cases "startTime s")
  case None
  then show ?thesis by (simp add: started_since_def)
next
  case (Some d)
  then show ?thesis by (cases d) (simp_all add: started_since_def)
qed

lemma started_since_InvalidDate: "\<not> started_since InvalidDate s"
  by (cases "startTime s") (simp_all add: started_since_def date_ge_InvalidDate)

lemma started_since_Some: "started_since c s \<Longrightarrow> startTime s \<noteq> None"
  by (cases "startTime s") (simp_all add: started_since_def)

lemma started_within_iff:
  "started_within lo hi s \<longleftrightarrow> (\<exists>t. startTime s = Some (Date t) \<and> lo \<le> t \<and> t < hi)"
proof (cases "startTime s")
  case None
  then show ?thesis by (simp add: started_within_def)
next
  case (Some d)
  then show ?thesis by (cases d) (simp_all add: started_within_def)
qed

lemma filter_started_since_start_only:
  "filter (started_since c) (filter (\<lambda>s. startTime s \<noteq> None) ss) = filter (started_since c) ss"
  unfolding filter_filter by (rule filter_cong) (auto dest: started_since_Some)

lemma filter_started_within_start_only:
  "filter (started_within lo hi) (filter (\<lambda>s. startTime s \<noteq> None) ss) = filter (started_within lo hi) ss"
  unfolding filter_filter by (rule filter_cong) (auto simp: started_within_iff)

lemma setDate_minus_start_only: "setDate_minus (with_start_only a) t n = setDate_minus a t n"
  by (simp add: setDate_minus_def with_start_only_def)

lemma filterByDays_start_only: "filterByDays (with_start_only a) days = filterByDays a days"
proof -
  have "now (with_start_only a) = now a"
    "sessions (with_start_only a) = filter (\<lambda>s. startTime s \<noteq> None) (sessions a)"
    by (simp_all add: with_start_only_def)
  then show ?thesis
    unfolding filterByDays_def setDate_minus_start_only
    by (simp add: filter_started_since_start_only del: filter_filter not_None_eq)
qed

lemma day_stat_start_only: "day_stat (with_start_only a) i = day_stat a i"
  by (simp add: day_stat_def with_start_only_def utcOffset_def filter_started_within_start_only
        del: filter_filter not_None_eq)

lemma getDailyStats_start_only: "getDailyStats (with_start_only a) days = getDailyStats a days"
  by (simp add: getDailyStats_eq day_stat_start_only)

lemma getWeeklySummary_start_only: "getWeeklySummary (with_start_only a) days = getWeeklySummary a days"
proof -
  have "utcOffset (with_start_only a) = utcOffset a"
    by (simp add: with_start_only_def utcOffset_def)
  then show ?thesis
    unfolding getWeeklySummary_def filterByDays_start_only by simp
qed

text \<open>
  What the filter keeps. The cutoff is the reference time moved back by \<open>days\<close> local
  calendar days; when that is no date nothing is kept, otherwise the sessions whose start
  time is a valid date not earlier than the cutoff, in their order. No test bounds the
  start time from above. Sessions with no start time take no part in any windowed view:
  dropping them changes neither \<open>filterByDays\<close> nor the daily statistics nor the
  summary.
\<close>

lemma filterByDays_cutoff:
  "filterByDays a days =
     (case setDate_minus a (now a) days of
        InvalidDate \<Rightarrow> []
      | Date c \<Rightarrow> filter (\<lambda>s. \<exists>t. startTime s = Some (Date t) \<and> c \<le> t) (sessions a))"
proof (cases "setDate_minus a (now a) days")
  case InvalidDate
  then show ?thesis by (simp add: filterByDays_def started_since_InvalidDate)
next
  case (Date c)
  have "filter (started_since (Date c)) (sessions a) =
        filter (\<lambda>s. \<exists>t. startTime s = Some (Date t) \<and> c \<le> t) (sessions a)"
    by (rule filter_cong) (simp_all add: started_since_iff)
  with Date show ?thesis by (simp add: filterByDays_def)
qed

lemma windowed_views_start_only:
  "filterByDays (with_start_only a) days = filterByDays a days
   \<and> getDailyStats (with_start_only a) days = getDailyStats a days
   \<and> getWeeklySummary (with_start_only a) days = getWeeklySummary a days"
  by (simp add: filterByDays_start_only getDailyStats_start_only getWeeklySummary_start_only)


text \<open>
  C3. The code does not keep to the closed interval. On a host on UTC, at reference
  time 0, a session that starts 1000 ms after the reference time is returned by
  \<open>filterByDays\<close> for seven days: the cutoff is seven days before the reference time
  and the filter tests \<open>startTime >= cutoff\<close> only. The session lies outside the closed
  interval from the cutoff to the reference time, the interval that \<open>export\<close> of the
  same class reports as the period of the window (\<open>from\<close> the cutoff, \<open>to\<close> the
  reference time).
\<close>

theorem filterByDays_keeps_future_session:
  "date_gt (Date 1000) (Date (now future_analytics))
   \<and> sessions future_analytics = [plain_session (Some (Date 1000))]
   \<and> setDate_minus future_analytics (now future_analytics) 7 = Date (- 604800000)
   \<and> filterByDays future_analytics 7 = [plain_session (Some (Date 1000))]
   \<and> filter (closed_window future_analytics 7) (sessions future_analytics) = []"
  by (simp add: future_analytics_def filterByDays_def started_since_def closed_window_def
        setDate_minus_def TimeClip_def in_range_def Let_def plain_session_def DAY_def)

section \<open>Window totals and daily sums\<close>













lemma avg_tokens_Inr: "\<exists>v. avg_tokens ss = Inr v"
  by (simp add: avg_tokens_def js_div_def bind_err_def)

lemma avg_messages_Inr: "\<exists>v. avg_messages ss = Inr v"
  by (simp add: avg_messages_def js_div_def bind_err_def)

lemma getWeeklySummary_Inr: "\<exists>w. getWeeklySummary a days = Inr w"
proof -
  obtain t where t: "avg_tokens (filterByDays a days) = Inr t" using avg_tokens_Inr by blast
  obtain m where m: "avg_messages (filterByDays a days) = Inr m" using avg_messages_Inr by blast
  show ?thesis by (simp add: getWeeklySummary_def Let_def bind_err_def t m)
qed

lemma getWeeklySummary_totals:
  assumes "getWeeklySummary a days = Inr w"
  shows "totalSessions w = sum_list (map (\<lambda>s. 1) (filterByDays a days))"
    and "totalMessages w = sum_list (map (\<lambda>s. length (messages s)) (filterByDays a days))"
    and "totalToolCalls w = sum_list (map (\<lambda>s. length (toolCalls s)) (filterByDays a days))"
    and "totalTokens w = sum_list (map (\<lambda>s. t_total (tokens s)) (filterByDays a days))"
    and "totalCost w = sum_list (map cost (filterByDays a days))"
    and "toolErrors w = sum_list (map (\<lambda>s. length (filter is_error_call (toolCalls s))) (filterByDays a days))"
    and "topTools w = take 10 (sort_desc (count_toolCalls (filterByDays a days)))"
    and "hourlyActivity w = hourly (utcOffset a) (filterByDays a days)"
  using assms
  by (auto simp: getWeeklySummary_def Let_def bind_err_def foldl_plus_sum_list sum_list_triv
        split: sum.splits)






section \<open>Building a session\<close>

lemma some_toolCall_ok: "NullBlock \<notin> set bs \<Longrightarrow> \<exists>h. some_toolCall bs = Inr h"
  by (induction bs rule: some_toolCall.induct) auto

lemma push_toolCalls_ok: "NullBlock \<notin> set bs \<Longrightarrow> \<exists>r. push_toolCalls d bs tcs = Inr r"
  by (induction d bs tcs rule: push_toolCalls.induct) auto

lemma update_message_ok:
  "well_formed_content (content m) \<Longrightarrow> \<exists>s'. update_message ts m s = Inr s'"
proof (cases "content m")
  case (Blocks bs)
  assume "well_formed_content (content m)"
  with Blocks have nb: "NullBlock \<notin> set bs" by simp
  obtain h where h: "some_toolCall bs = Inr h" using some_toolCall_ok[OF nb] by blast
  obtain r where r: "push_toolCalls (entry_date ts) bs
       (toolCalls (update_usage m (s\<lparr>messages := messages s @
                       [\<lparr> m_role = role m, m_timestamp = entry_date ts, hasToolCalls = h \<rparr>]\<rparr>))) = Inr r"
    using push_toolCalls_ok[OF nb] by blast
  show ?thesis using Blocks h r by (simp add: update_message_def Let_def)
qed (simp_all add: update_message_def Let_def)

lemma process_entry_ok: "well_formed_entry e \<Longrightarrow> \<exists>s'. process_entry s e = Inr s'"
proof (cases e)
  case NullEntry
  assume "well_formed_entry e"
  with NullEntry show ?thesis by (simp add: well_formed_entry_def)
next
  case (Entry ts ty i mid prov mo)
  assume wf: "well_formed_entry e"
  show ?thesis
  proof (cases "message_of e")
    case None
    with Entry show ?thesis
      by (auto simp: message_of_def Let_def split: if_splits option.splits)
  next
    case (Some m)
    with Entry have ty: "ty = Some ''message''" and mo: "mo = Some m"
      by (auto simp: message_of_def split: if_splits)
    from wf Some have "well_formed_content (content m)" by (simp add: well_formed_entry_def)
    then obtain s4 where "update_message ts m (update_model ty mid prov (update_meta ty i (update_times ts s))) = Inr s4"
      using update_message_ok by blast
    then show ?thesis by (simp add: Entry ty mo Let_def)
  qed
qed

lemma fold_entries_ok: "list_all well_formed_entry es \<Longrightarrow> \<exists>s'. fold_entries s es = Inr s'"
proof (induction es arbitrary: s)
  case Nil
  show ?case by simp
next
  case (Cons e es)
  from Cons.prems have e: "well_formed_entry e" and es: "list_all well_formed_entry es"
    by simp_all
  obtain s1 where s1: "process_entry s e = Inr s1" using process_entry_ok[OF e] by blast
  obtain s' where "fold_entries s1 es = Inr s'" using Cons.IH[OF es] by blast
  with s1 show ?case by simp
qed

lemma update_times_keeps [simp]:
  "tokens (update_times ts s) = tokens s" "cost (update_times ts s) = cost s"
  "toolCalls (update_times ts s) = toolCalls s" "messages (update_times ts s) = messages s"
  by (auto simp: update_times_def Let_def split: option.splits)

lemma update_meta_keeps [simp]:
  "tokens (update_meta ty i s) = tokens s" "cost (update_meta ty i s) = cost s"
  "toolCalls (update_meta ty i s) = toolCalls s" "messages (update_meta ty i s) = messages s"
  "startTime (update_meta ty i s) = startTime s" "endTime (update_meta ty i s) = endTime s"
  by (auto simp: update_meta_def split: option.splits)

lemma update_model_keeps [simp]:
  "tokens (update_model ty mid prov s) = tokens s" "cost (update_model ty mid prov s) = cost s"
  "toolCalls (update_model ty mid prov s) = toolCalls s" "messages (update_model ty mid prov s) = messages s"
  "startTime (update_model ty mid prov s) = startTime s" "endTime (update_model ty mid prov s) = endTime s"
  by (auto simp: update_model_def)

lemma attach_result_keeps [simp]:
  "tokens (attach_result ts m s) = tokens s" "cost (attach_result ts m s) = cost s"
  "startTime (attach_result ts m s) = startTime s" "endTime (attach_result ts m s) = endTime s"
  by (auto simp: attach_result_def split: option.splits)

lemma update_message_usage:
  "update_message ts m s = Inr s' \<Longrightarrow>
     tokens s' = tokens (update_usage m s) \<and> cost s' = cost (update_usage m s)
     \<and> startTime s' = startTime s \<and> endTime s' = endTime s"
  unfolding update_message_def update_usage_def add_usage_def
  by (auto simp: Let_def split: sum.splits option.splits if_splits)

lemma process_entry_usage:
  assumes "process_entry s e = Inr s'"
  shows "t_total (tokens s') = t_total (tokens s) + sum_list (map usage_total (assistant_usages [e]))"
    and "cost s' = cost s + sum_list (map usage_cost (assistant_usages [e]))"
proof -
  have "t_total (tokens s') = t_total (tokens s) + sum_list (map usage_total (assistant_usages [e]))
      \<and> cost s' = cost s + sum_list (map usage_cost (assistant_usages [e]))"
  proof (cases e)
    case NullEntry
    with assms show ?thesis by simp
  next
    case (Entry ts ty i mid prov mo)
    show ?thesis
    proof (cases "message_of e")
      case None
      with Entry assms show ?thesis
        by (auto simp: message_of_def Let_def assistant_usages_def split: if_splits option.splits)
    next
      case (Some m)
      with Entry have ty: "ty = Some ''message''" and mo: "mo = Some m"
        by (auto simp: message_of_def split: if_splits)
      from assms obtain s4 where s4: "update_message ts m (update_model ty mid prov (update_meta ty i (update_times ts s))) = Inr s4"
        and s': "s' = attach_result ts m s4"
        by (auto simp: Entry ty mo Let_def split: sum.splits)
      note u = update_message_usage[OF s4]
      show ?thesis
        using u Some unfolding s'
        by (auto simp: assistant_usages_def update_usage_def add_usage_def usage_total_def
              usage_cost_def or0_def split: option.splits)
    qed
  qed
  then show "t_total (tokens s') = t_total (tokens s) + sum_list (map usage_total (assistant_usages [e]))"
    and "cost s' = cost s + sum_list (map usage_cost (assistant_usages [e]))" by simp_all
qed

lemma assistant_usages_Cons: "assistant_usages (e # es) = assistant_usages [e] @ assistant_usages es"
  by (simp add: assistant_usages_def)

lemma fold_entries_usage:
  "fold_entries s es = Inr s' \<Longrightarrow>
     t_total (tokens s') = t_total (tokens s) + sum_list (map usage_total (assistant_usages es))
     \<and> cost s' = cost s + sum_list (map usage_cost (assistant_usages es))"
proof (induction es arbitrary: s)
  case Nil
  then show ?case by (simp add: assistant_usages_def)
next
  case (Cons e es)
  then obtain s1 where s1: "process_entry s e = Inr s1" and r: "fold_entries s1 es = Inr s'"
    by (auto split: sum.splits)
  from Cons.IH[OF r] process_entry_usage[OF s1] show ?case
    by (subst (1 2) assistant_usages_Cons) simp
qed

lemma set_duration_keeps [simp]:
  "tokens (set_duration s) = tokens s" "cost (set_duration s) = cost s"
  "toolCalls (set_duration s) = toolCalls s" "messages (set_duration s) = messages s"
  by (auto simp: set_duration_def split: option.splits)

text \<open>
  C4. A well-formed file is built into a Session, and whenever a Session is built its
  \<open>tokens.total\<close> is the sum of the total-token fields, and its \<open>cost\<close> the sum of the
  cost fields, of the usage deltas carried by the file's assistant messages.
\<close>

theorem session_totals_are_usage_sums:
  "(list_all well_formed_entry lines \<longrightarrow> (\<exists>s. processSession lines filePath base = Inr s))
   \<and> (\<forall>s. processSession lines filePath base = Inr s \<longrightarrow>
         t_total (tokens s) = sum_list (map usage_total (assistant_usages lines))
         \<and> cost s = sum_list (map usage_cost (assistant_usages lines)))"
proof (intro conjI impI allI)
  assume "list_all well_formed_entry lines"
  then obtain s where "fold_entries (init_session base filePath) lines = Inr s"
    using fold_entries_ok by blast
  then show "\<exists>s. processSession lines filePath base = Inr s"
    by (simp add: processSession_def)
next
  fix s assume "processSession lines filePath base = Inr s"
  then obtain s0 where f: "fold_entries (init_session base filePath) lines = Inr s0"
    and s: "s = set_duration s0"
    by (auto simp: processSession_def split: sum.splits)
  from fold_entries_usage[OF f]
  show "t_total (tokens s) = sum_list (map usage_total (assistant_usages lines))"
    and "cost s = sum_list (map usage_cost (assistant_usages lines))"
    by (simp_all add: s init_session_def)
qed

theorem session_totals_are_usage_sums_witness:
  "list_all well_formed_entry sample_lines
   \<and> map usage_total (assistant_usages sample_lines) = [15, 15]
   \<and> map usage_cost (assistant_usages sample_lines) = [1 / 4, 1 / 4]
   \<and> (\<exists>s. processSession sample_lines ''a.jsonl'' ''a'' = Inr s
          \<and> t_total (tokens s) = 30 \<and> cost s = 1 / 2)"
proof -
  note t = session_totals_are_usage_sums[of sample_lines "''a.jsonl''" "''a''"]
  have wf: "list_all well_formed_entry sample_lines"
    by (simp add: sample_lines_def well_formed_entry_def message_of_def message_entry_def
          assistant_msg_def toolResult_msg_def)
  have us: "assistant_usages sample_lines = [the (usage assistant_msg), the (usage assistant_msg)]"
    by (simp add: sample_lines_def assistant_usages_def message_of_def message_entry_def
          assistant_msg_def toolResult_msg_def)
  have ut: "map usage_total (assistant_usages sample_lines) = [15, 15]"
    and uc: "map usage_cost (assistant_usages sample_lines) = [1 / 4, 1 / 4]"
    unfolding us by (simp_all add: usage_total_def usage_cost_def or0_def assistant_msg_def)
  from t[THEN conjunct1] wf obtain s where s: "processSession sample_lines ''a.jsonl'' ''a'' = Inr s"
    by blast
  from t[THEN conjunct2] s have
    "t_total (tokens s) = sum_list (map usage_total (assistant_usages sample_lines))"
    "cost s = sum_list (map usage_cost (assistant_usages sample_lines))"
    by blast+
  then have "t_total (tokens s) = 30" "cost s = 1 / 2"
    unfolding ut uc by simp_all
  with s have "\<exists>s. processSession sample_lines ''a.jsonl'' ''a'' = Inr s
          \<and> t_total (tokens s) = 30 \<and> cost s = 1 / 2" by blast
  with wf ut uc show ?thesis by blast
qed

section \<open>Invariants of the builder\<close>

lemma update_times_ok:
  "times_ok (startTime s) (endTime s) \<Longrightarrow>
     times_ok (startTime (update_times ts s)) (endTime (update_times ts s))"
proof (cases ts)
  case None
  assume "times_ok (startTime s) (endTime s)"
  with None show ?thesis by (simp add: update_times_def)
next
  case (Some d)
  assume ok: "times_ok (startTime s) (endTime s)"
  show ?thesis
  proof (cases "startTime s")
    case None
    with ok have "endTime s = None" by (cases "endTime s") simp_all
    with None Some show ?thesis by (cases d) (simp_all add: update_times_def)
  next
    case st: (Some a)
    with ok obtain b where en: "endTime s = Some b" by (cases "endTime s") (cases a; simp)+
    from ok st en show ?thesis
      unfolding Some update_times_def
      by (cases a; cases b; cases d) (auto simp: Let_def)
  qed
qed

lemma process_entry_times:
  assumes "process_entry s e = Inr s'" and "times_ok (startTime s) (endTime s)"
  shows "times_ok (startTime s') (endTime s')"
proof (cases e)
  case NullEntry
  with assms show ?thesis by simp
next
  case (Entry ts ty i mid prov mo)
  have "startTime s' = startTime (update_times ts s) \<and> endTime s' = endTime (update_times ts s)"
    using assms(1) unfolding Entry
    by (auto simp: Let_def split: option.splits if_splits sum.splits dest!: update_message_usage)
  with update_times_ok[OF assms(2), of ts] show ?thesis by simp
qed

lemma fold_entries_times:
  "fold_entries s es = Inr s' \<Longrightarrow> times_ok (startTime s) (endTime s) \<Longrightarrow>
     times_ok (startTime s') (endTime s')"
proof (induction es arbitrary: s)
  case Nil
  then show ?case by simp
next
  case (Cons e es)
  then obtain s1 where s1: "process_entry s e = Inr s1" and r: "fold_entries s1 es = Inr s'"
    by (auto split: sum.splits)
  from process_entry_times[OF s1 Cons.prems(2)] Cons.IH[OF r] show ?case by simp
qed

lemma times_ok_le:
  "times_ok (Some a) (Some b) \<Longrightarrow> date_le a b \<or> (a = InvalidDate \<and> b = InvalidDate)"
  by (cases a; cases b) simp_all

lemma add_usage_fields:
  "t_input (tokens (add_usage u s)) = t_input (tokens s) + or0 (u_input u)"
  "t_output (tokens (add_usage u s)) = t_output (tokens s) + or0 (u_output u)"
  "t_cacheRead (tokens (add_usage u s)) = t_cacheRead (tokens s) + or0 (u_cacheRead u)"
  "t_cacheWrite (tokens (add_usage u s)) = t_cacheWrite (tokens s) + or0 (u_cacheWrite u)"
  "t_total (tokens (add_usage u s)) = t_total (tokens s) + or0 (u_totalTokens u)"
  "cost (add_usage u s) = cost s + or0 (u_cost_total u)"
  by (simp_all add: add_usage_def or0_def split: option.splits)

lemma add_usage_monotone:
  "usage_nonneg u \<Longrightarrow> tokens_le (tokens s) (tokens (add_usage u s)) \<and> cost s \<le> cost (add_usage u s)"
  by (simp add: add_usage_fields tokens_le_def usage_nonneg_def)

lemma update_usage_monotone:
  assumes "list_all usage_nonneg (assistant_usages [e])" and "message_of e = Some m"
  shows "tokens_le (tokens s) (tokens (update_usage m s)) \<and> cost s \<le> cost (update_usage m s)"
proof (cases "role m = Some ''assistant''")
  case False
  then show ?thesis by (simp add: update_usage_def tokens_le_def)
next
  case True
  show ?thesis
  proof (cases "usage m")
    case None
    with True show ?thesis by (simp add: update_usage_def tokens_le_def)
  next
    case (Some u)
    with True assms have "usage_nonneg u" by (simp add: assistant_usages_def)
    with True Some show ?thesis by (simp add: update_usage_def add_usage_monotone)
  qed
qed

lemma process_entry_monotone:
  assumes "process_entry s e = Inr s'" and "list_all usage_nonneg (assistant_usages [e])"
  shows "tokens_le (tokens s) (tokens s') \<and> cost s \<le> cost s'"
proof (cases e)
  case NullEntry
  with assms show ?thesis by simp
next
  case (Entry ts ty i mid prov mo)
  show ?thesis
  proof (cases "message_of e")
    case None
    with Entry assms(1) have "tokens s' = tokens s \<and> cost s' = cost s"
      by (auto simp: message_of_def Let_def split: if_splits option.splits)
    then show ?thesis by (simp add: tokens_le_def)
  next
    case (Some m)
    with Entry have ty: "ty = Some ''message''" and mo: "mo = Some m"
      by (auto simp: message_of_def split: if_splits)
    from assms(1) obtain s4 where s4: "update_message ts m (update_model ty mid prov (update_meta ty i (update_times ts s))) = Inr s4"
      and s': "s' = attach_result ts m s4"
      by (auto simp: Entry ty mo Let_def split: sum.splits)
    let ?s3 = "update_model ty mid prov (update_meta ty i (update_times ts s))"
    have k: "tokens ?s3 = tokens s" "cost ?s3 = cost s" by simp_all
    from update_message_usage[OF s4] have u: "tokens s' = tokens (update_usage m ?s3)"
      "cost s' = cost (update_usage m ?s3)"
      unfolding s' by simp_all
    from update_usage_monotone[OF assms(2) Some, of ?s3] show ?thesis
      unfolding u k .
  qed
qed

text \<open>
  C9, as the code has it. After any prefix of a file has been folded, the start and end
  times are both unset, both the invalid date, or both valid with start \<open>\<le>\<close> end; so
  when both are set, either start \<open>\<le>\<close> end or both are the invalid date. Folding one
  more event lowers no token field and not the cost, provided the usage delta it carries
  has no negative field.
\<close>

theorem builder_invariants:
  "fold_entries (init_session base filePath) pre = Inr s \<longrightarrow>
     times_ok (startTime s) (endTime s)
     \<and> (\<forall>a b. startTime s = Some a \<and> endTime s = Some b \<longrightarrow>
           date_le a b \<or> (a = InvalidDate \<and> b = InvalidDate))
     \<and> (\<forall>e s'. process_entry s e = Inr s' \<and> list_all usage_nonneg (assistant_usages [e]) \<longrightarrow>
           tokens_le (tokens s) (tokens s') \<and> cost s \<le> cost s')"
proof (intro impI conjI allI)
  assume f: "fold_entries (init_session base filePath) pre = Inr s"
  have "times_ok (startTime (init_session base filePath)) (endTime (init_session base filePath))"
    by (simp add: init_session_def)
  with f show ok: "times_ok (startTime s) (endTime s)" by (rule fold_entries_times)
  show "date_le a b \<or> (a = InvalidDate \<and> b = InvalidDate)"
    if "startTime s = Some a \<and> endTime s = Some b" for a b
    using ok that by (intro times_ok_le) simp
next
  fix e s'
  assume "process_entry s e = Inr s' \<and> list_all usage_nonneg (assistant_usages [e])"
  then have "process_entry s e = Inr s'" "list_all usage_nonneg (assistant_usages [e])"
    by simp_all
  then have "tokens_le (tokens s) (tokens s') \<and> cost s \<le> cost s'"
    by (rule process_entry_monotone)
  then show "tokens_le (tokens s) (tokens s')" and "cost s \<le> cost s'" by simp_all
qed

theorem builder_invariants_witness:
  "\<exists>s s'. fold_entries (init_session ''a'' ''a.jsonl'') timed_lines = Inr s
     \<and> startTime s = Some (Date 1000) \<and> endTime s = Some (Date 2000)
     \<and> date_le (Date 1000) (Date 2000)
     \<and> process_entry s (message_entry assistant_msg) = Inr s'
     \<and> list_all usage_nonneg (assistant_usages [message_entry assistant_msg])
     \<and> tokens_le (tokens s) (tokens s') \<and> cost s \<le> cost s'"
proof -
  have wf: "list_all well_formed_entry timed_lines"
    by (simp add: timed_lines_def well_formed_entry_def message_of_def assistant_msg_def)
  then obtain s where s: "fold_entries (init_session ''a'' ''a.jsonl'') timed_lines = Inr s"
    using fold_entries_ok by blast
  note inv = builder_invariants[of "''a''" "''a.jsonl''" timed_lines s, THEN mp, OF s]
  have st: "startTime s = Some (Date 1000)" "endTime s = Some (Date 2000)"
    using s
    by (auto simp: timed_lines_def init_session_def update_times_def update_meta_def
          update_model_def update_message_def update_usage_def add_usage_def attach_result_def
          assistant_msg_def Let_def split: sum.splits)
  from inv st have le: "date_le (Date 1000) (Date 2000)" by simp
  have "well_formed_entry (message_entry assistant_msg)"
    by (simp add: well_formed_entry_def message_of_def message_entry_def assistant_msg_def)
  then obtain s' where s': "process_entry s (message_entry assistant_msg) = Inr s'"
    using process_entry_ok by blast
  have nn: "list_all usage_nonneg (assistant_usages [message_entry assistant_msg])"
    by (simp add: assistant_usages_def message_of_def message_entry_def assistant_msg_def
          usage_nonneg_def or0_def)
  from inv s' nn have mono: "tokens_le (tokens s) (tokens s')" "cost s \<le> cost s'"
    by blast+
  show ?thesis
    by (intro exI[of _ s] exI[of _ s'] conjI s st le s' nn mono)
qed

lemma invalid_first_timestamp:
  "fold_entries (init_session ''a'' ''a.jsonl'') [Entry (Some InvalidDate) None None None None None]
     = Inr ((init_session ''a'' ''a.jsonl'')\<lparr>startTime := Some InvalidDate, endTime := Some InvalidDate\<rparr>)"
  by (simp add: init_session_def update_times_def update_meta_def update_model_def)

lemma negative_usage:
  "\<exists>s'. process_entry (init_session ''a'' ''a.jsonl'') (message_entry refund_msg) = Inr s'
        \<and> t_total (tokens s') = - 5"
  by (simp add: init_session_def update_times_def update_meta_def update_model_def
        message_entry_def refund_msg_def update_message_def update_usage_def add_usage_def
        attach_result_def or0_def)

text \<open>
  C9 as stated fails twice over: after a first timestamp that does not parse, both times
  are set and start \<open>\<le>\<close> end is false; and an assistant message whose usage reports a
  negative total lowers \<open>tokens.total\<close>.
\<close>

theorem builder_invariants_counterexample:
  "(\<exists>s. fold_entries (init_session ''a'' ''a.jsonl'')
            [Entry (Some InvalidDate) None None None None None] = Inr s
        \<and> startTime s = Some InvalidDate \<and> endTime s = Some InvalidDate
        \<and> \<not> date_le InvalidDate InvalidDate)
   \<and> (\<exists>s'. process_entry (init_session ''a'' ''a.jsonl'') (message_entry refund_msg) = Inr s'
        \<and> t_total (tokens s') < t_total (tokens (init_session ''a'' ''a.jsonl'')))"
proof -
  have "t_total (tokens (init_session ''a'' ''a.jsonl'')) = 0" by (simp add: init_session_def)
  with negative_usage have "\<exists>s'. process_entry (init_session ''a'' ''a.jsonl'') (message_entry refund_msg) = Inr s'
        \<and> t_total (tokens s') < t_total (tokens (init_session ''a'' ''a.jsonl''))"
    by auto
  then show ?thesis unfolding invalid_first_timestamp by simp
qed

section \<open>Tool results\<close>

lemma push_toolCalls_eq:
  "push_toolCalls d bs tcs = Inr r \<Longrightarrow> r = tcs @ concat (map (call_of d) bs)"
  by (induction d bs tcs rule: push_toolCalls.induct) (auto split: if_splits)

lemma update_usage_toolCalls [simp]: "toolCalls (update_usage m s) = toolCalls s"
  by (simp add: update_usage_def add_usage_def split: option.splits)

lemma update_message_calls:
  assumes "update_message ts m s = Inr s'"
  shows "toolCalls s' = toolCalls s @ content_calls (entry_date ts) (content m)"
proof (cases "content m")
  case NoContent
  with assms show ?thesis
    by (auto simp: update_message_def Let_def content_calls_def)
next
  case (Blocks bs)
  with assms show ?thesis
    by (auto simp: update_message_def Let_def content_calls_def split: sum.splits
          dest!: push_toolCalls_eq)
next
  case (TextContent t)
  with assms show ?thesis by (simp add: update_message_def)
next
  case (ScalarContent b)
  with assms show ?thesis by (simp add: update_message_def)
qed

lemma find_toolCall_None: "find_toolCall x cs = None \<longleftrightarrow> x \<notin> set (map tc_id cs)"
  by (induction cs) auto

lemma find_toolCall_Some:
  "find_toolCall x cs = Some k \<Longrightarrow>
     k < length cs \<and> tc_id (cs ! k) = x \<and> (\<forall>j<k. tc_id (cs ! j) \<noteq> x)"
proof (induction cs arbitrary: k)
  case Nil
  then show ?case by simp
next
  case (Cons c cs)
  show ?case
  proof (cases "tc_id c = x")
    case True
    with Cons.prems show ?thesis by simp
  next
    case False
    with Cons.prems obtain k' where k': "find_toolCall x cs = Some k'" "k = Suc k'"
      by auto
    from Cons.IH[OF k'(1)] False k'(2) show ?thesis
      by (auto simp: nth_Cons split: nat.splits)
  qed
qed

lemma attach_result_calls:
  "toolCalls (attach_result ts m s) =
     (if role m = Some ''toolResult''
      then (case find_toolCall (toolCallId m) (toolCalls s) of
              None \<Rightarrow> toolCalls s
            | Some k \<Rightarrow> (toolCalls s)[k := (toolCalls s ! k)
                  \<lparr>tc_result := Some \<lparr> r_isError = isError m, r_timestamp = entry_date ts \<rparr>\<rparr>])
      else toolCalls s)"
  by (simp add: attach_result_def split: option.splits)

lemma attach_result_ids: "map tc_id (toolCalls (attach_result ts m s)) = map tc_id (toolCalls s)"
proof -
  have "map tc_id (cs[k := (cs ! k)\<lparr>tc_result := r\<rparr>]) = map tc_id cs" for cs :: "toolCall list" and k r
    by (cases "k < length cs") (simp_all add: map_update list_update_same_conv list_update_beyond)
  then show ?thesis by (simp add: attach_result_calls split: option.splits)
qed

lemma process_entry_calls:
  assumes "process_entry s e = Inr s'"
  shows "\<exists>ts ty i mid prov mo. e = Entry ts ty i mid prov mo \<and>
     (case message_of e of
        None \<Rightarrow> toolCalls s' = toolCalls s
      | Some m \<Rightarrow> \<exists>s4. toolCalls s4 = toolCalls s @ entry_calls e \<and> s' = attach_result ts m s4)"
proof (cases e)
  case NullEntry
  with assms show ?thesis by simp
next
  case (Entry ts ty i mid prov mo)
  show ?thesis
  proof (cases "message_of e")
    case None
    with Entry assms show ?thesis
      by (auto simp: message_of_def Let_def split: if_splits option.splits)
  next
    case (Some m)
    with Entry have ty: "ty = Some ''message''" and mo: "mo = Some m"
      by (auto simp: message_of_def split: if_splits)
    from assms obtain s4 where s4: "update_message ts m (update_model ty mid prov (update_meta ty i (update_times ts s))) = Inr s4"
      and s': "s' = attach_result ts m s4"
      by (auto simp: Entry ty mo Let_def split: sum.splits)
    have "entry_calls e = content_calls (entry_date ts) (content m)"
      using Some by (simp add: entry_calls_def Entry)
    with update_message_calls[OF s4] have "toolCalls s4 = toolCalls s @ entry_calls e" by simp
    with s' Some Entry show ?thesis by auto
  qed
qed

lemma process_entry_ids:
  assumes "process_entry s e = Inr s'"
  shows "map tc_id (toolCalls s') = map tc_id (toolCalls s) @ map tc_id (entry_calls e)"
proof (cases "message_of e")
  case None
  with process_entry_calls[OF assms] show ?thesis
    by (auto simp: entry_calls_def split: entry.splits)
next
  case (Some m)
  with process_entry_calls[OF assms] show ?thesis
    by (auto simp: attach_result_ids)
qed

lemma fold_entries_ids:
  "fold_entries s es = Inr s' \<Longrightarrow>
     map tc_id (toolCalls s') = map tc_id (toolCalls s) @ map tc_id (concat (map entry_calls es))"
proof (induction es arbitrary: s)
  case Nil
  then show ?case by simp
next
  case (Cons e es)
  then obtain s1 where s1: "process_entry s e = Inr s1" and r: "fold_entries s1 es = Inr s'"
    by (auto split: sum.splits)
  from Cons.IH[OF r] process_entry_ids[OF s1] show ?case by simp
qed

text \<open>
  What folding a tool-result event does. When the event, with call id \<open>X\<close>, is folded
  after a prefix of the file, the ToolCalls of the session are those of the earlier events
  followed by those of the event's own tool-invocation blocks. If one of them has id
  \<open>X\<close>, the first such gets the Result and nothing else changes; if none has, the list is
  left as it is, so an event without invocation blocks whose id no earlier event produced
  changes no ToolCall and not their number. A well-formed event raises nothing.
\<close>

lemma tool_result_attaches:
  "(fold_entries (init_session base filePath) pre = Inr s \<and> message_of e = Some m
      \<and> role m = Some ''toolResult'' \<and> process_entry s e = Inr s' \<longrightarrow>
      map tc_id (toolCalls s) = map tc_id (concat (map entry_calls pre))
      \<and> map tc_id (toolCalls s') = map tc_id (toolCalls s @ entry_calls e)
      \<and> length (toolCalls s') = length (toolCalls s) + length (entry_calls e)
      \<and> (toolCallId m \<in> set (map tc_id (toolCalls s @ entry_calls e)) \<longrightarrow>
           (\<exists>k<length (toolCalls s @ entry_calls e).
              tc_id ((toolCalls s @ entry_calls e) ! k) = toolCallId m
              \<and> (\<forall>j<k. tc_id ((toolCalls s @ entry_calls e) ! j) \<noteq> toolCallId m)
              \<and> toolCalls s' = (toolCalls s @ entry_calls e)
                   [k := ((toolCalls s @ entry_calls e) ! k)\<lparr>tc_result := Some (entry_result e m)\<rparr>]))
      \<and> (toolCallId m \<notin> set (map tc_id (toolCalls s @ entry_calls e)) \<longrightarrow>
           toolCalls s' = toolCalls s @ entry_calls e)
      \<and> (entry_calls e = [] \<and> toolCallId m \<notin> set (map tc_id (concat (map entry_calls pre))) \<longrightarrow>
           toolCalls s' = toolCalls s))
   \<and> (well_formed_entry e \<longrightarrow> (\<exists>s'. process_entry s e = Inr s'))"
proof (intro conjI impI)
  assume "well_formed_entry e"
  then show "\<exists>s'. process_entry s e = Inr s'" by (rule process_entry_ok)
next
  assume h: "fold_entries (init_session base filePath) pre = Inr s \<and> message_of e = Some m
      \<and> role m = Some ''toolResult'' \<and> process_entry s e = Inr s'"
  then have f: "fold_entries (init_session base filePath) pre = Inr s"
    and m: "message_of e = Some m" and r: "role m = Some ''toolResult''"
    and p: "process_entry s e = Inr s'" by simp_all
  let ?cs = "toolCalls s @ entry_calls e"
  from fold_entries_ids[OF f]
  show earlier: "map tc_id (toolCalls s) = map tc_id (concat (map entry_calls pre))"
    by (simp add: init_session_def)
  from process_entry_ids[OF p]
  show ids: "map tc_id (toolCalls s') = map tc_id ?cs" by simp
  from ids have "length (map tc_id (toolCalls s')) = length (map tc_id ?cs)" by simp
  then show "length (toolCalls s') = length (toolCalls s) + length (entry_calls e)" by simp
  from process_entry_calls[OF p] m obtain ts ty i mid prov mo s4 where
    e: "e = Entry ts ty i mid prov mo" and s4: "toolCalls s4 = ?cs" and s': "s' = attach_result ts m s4"
    by auto
  have res: "entry_result e m = \<lparr> r_isError = isError m, r_timestamp = entry_date ts \<rparr>"
    by (simp add: entry_result_def e)
  have calls: "toolCalls s' = (case find_toolCall (toolCallId m) ?cs of
              None \<Rightarrow> ?cs
            | Some k \<Rightarrow> ?cs[k := (?cs ! k)\<lparr>tc_result := Some (entry_result e m)\<rparr>])"
    unfolding s' attach_result_calls s4 res using r by simp
  show no: "toolCalls s' = ?cs" if "toolCallId m \<notin> set (map tc_id ?cs)"
    using that calls find_toolCall_None[of "toolCallId m" ?cs] by simp
  show "\<exists>k<length ?cs. tc_id (?cs ! k) = toolCallId m
              \<and> (\<forall>j<k. tc_id (?cs ! j) \<noteq> toolCallId m)
              \<and> toolCalls s' = ?cs[k := (?cs ! k)\<lparr>tc_result := Some (entry_result e m)\<rparr>]"
    if "toolCallId m \<in> set (map tc_id ?cs)"
  proof -
    from that obtain k where k: "find_toolCall (toolCallId m) ?cs = Some k"
      using find_toolCall_None[of "toolCallId m" ?cs] by (cases "find_toolCall (toolCallId m) ?cs") auto
    from find_toolCall_Some[OF k] calls k show ?thesis by auto
  qed
  show "toolCalls s' = toolCalls s"
    if "entry_calls e = [] \<and> toolCallId m \<notin> set (map tc_id (concat (map entry_calls pre)))"
    using that no earlier by simp
qed

lemma tool_result_attaches_sample:
  "\<exists>s s' s''. fold_entries (init_session ''a'' ''a.jsonl'') [message_entry assistant_msg] = Inr s
     \<and> message_of (message_entry toolResult_msg) = Some toolResult_msg
     \<and> role toolResult_msg = Some ''toolResult''
     \<and> process_entry s (message_entry toolResult_msg) = Inr s'
     \<and> map tc_id (toolCalls s) = [Some ''c1'']
     \<and> toolCallId toolResult_msg = Some ''c1''
     \<and> map tc_id (toolCalls s') = [Some ''c1'']
     \<and> map tc_result (toolCalls s') = [Some \<lparr> r_isError = True, r_timestamp = InvalidDate \<rparr>]
     \<and> process_entry s (message_entry stray_result_msg) = Inr s''
     \<and> toolCallId stray_result_msg = Some ''zz''
     \<and> toolCalls s'' = toolCalls s"
proof -
  let ?pre = "[message_entry assistant_msg]"
  have wf: "list_all well_formed_entry ?pre" "well_formed_entry (message_entry toolResult_msg)"
    "well_formed_entry (message_entry stray_result_msg)"
    by (simp_all add: well_formed_entry_def message_of_def message_entry_def assistant_msg_def
          toolResult_msg_def stray_result_msg_def)
  obtain s where s: "fold_entries (init_session ''a'' ''a.jsonl'') ?pre = Inr s"
    using fold_entries_ok[OF wf(1)] by blast
  obtain s' where s': "process_entry s (message_entry toolResult_msg) = Inr s'"
    using process_entry_ok[OF wf(2)] by blast
  obtain s'' where s'': "process_entry s (message_entry stray_result_msg) = Inr s''"
    using process_entry_ok[OF wf(3)] by blast
  have mt: "message_of (message_entry toolResult_msg) = Some toolResult_msg"
    and ms: "message_of (message_entry stray_result_msg) = Some stray_result_msg"
    by (simp_all add: message_of_def message_entry_def)
  have rt: "role toolResult_msg = Some ''toolResult''" "toolCallId toolResult_msg = Some ''c1''"
    and rs: "role stray_result_msg = Some ''toolResult''" "toolCallId stray_result_msg = Some ''zz''"
    by (simp_all add: toolResult_msg_def stray_result_msg_def)
  have pre_ids: "map tc_id (entry_calls (message_entry assistant_msg)) = [Some ''c1'']"
    by (simp add: entry_calls_def message_entry_def message_of_def assistant_msg_def
          content_calls_def)
  have none: "entry_calls (message_entry toolResult_msg) = []"
    "entry_calls (message_entry stray_result_msg) = []"
    by (simp_all add: entry_calls_def message_entry_def message_of_def toolResult_msg_def
          stray_result_msg_def content_calls_def)
  note hit = tool_result_attaches[of "''a''" "''a.jsonl''" ?pre s "message_entry toolResult_msg"
      toolResult_msg s', THEN conjunct1, THEN mp, OF conjI[OF s conjI[OF mt conjI[OF rt(1) s']]]]
  note miss = tool_result_attaches[of "''a''" "''a.jsonl''" ?pre s "message_entry stray_result_msg"
      stray_result_msg s'', THEN conjunct1, THEN mp, OF conjI[OF s conjI[OF ms conjI[OF rs(1) s'']]]]
  from hit[THEN conjunct1] have ids: "map tc_id (toolCalls s) = [Some ''c1'']"
    by (simp add: pre_ids)
  from hit[THEN conjunct2, THEN conjunct1] have ids': "map tc_id (toolCalls s') = [Some ''c1'']"
    by (simp add: ids none)
  have "entry_calls (message_entry stray_result_msg) = []
      \<and> toolCallId stray_result_msg \<notin> set (map tc_id (concat (map entry_calls ?pre)))"
    by (simp add: none rs pre_ids)
  with miss have same: "toolCalls s'' = toolCalls s"
    by blast
  have res: "map tc_result (toolCalls s') = [Some \<lparr> r_isError = True, r_timestamp = InvalidDate \<rparr>]"
    using s s'
    by (auto simp: init_session_def update_times_def update_meta_def update_model_def
          update_message_def update_usage_def add_usage_def attach_result_def message_entry_def
          assistant_msg_def toolResult_msg_def entry_date_def Let_def split: sum.splits)
  show ?thesis
    by (intro exI[of _ s] exI[of _ s'] exI[of _ s''] conjI s mt rt s' ids ids' res s'' rs same)
qed

text \<open>
  C5. The code does not keep a tool-result event that names an unknown call a no-op. The
  first event of a file is a message of role \<open>toolResult\<close> with call id \<open>c9\<close> whose
  content holds a tool-invocation block with the same id. No earlier event produced a
  ToolCall, yet \<open>processSession\<close> builds one from the block, its extraction of tool
  calls not being limited to assistant messages, and attaches the Result to it: the number
  of ToolCalls goes from 0 to 1. The live path, which counts the tool-invocation blocks of
  assistant messages only, counts no tool call for the same event.
\<close>

theorem tool_result_self_attach:
  "fold_entries (init_session ''a'' ''a.jsonl'') [] = Inr (init_session ''a'' ''a.jsonl'')
   \<and> toolCalls (init_session ''a'' ''a.jsonl'') = []
   \<and> message_of (message_entry self_result_msg) = Some self_result_msg
   \<and> role self_result_msg = Some ''toolResult''
   \<and> toolCallId self_result_msg = Some ''c9''
   \<and> (\<exists>s'. process_entry (init_session ''a'' ''a.jsonl'') (message_entry self_result_msg) = Inr s'
         \<and> map tc_id (toolCalls s') = [Some ''c9'']
         \<and> map tc_result (toolCalls s') = [Some \<lparr> r_isError = False, r_timestamp = InvalidDate \<rparr>])
   \<and> w_toolCalls (fst (processEntry stats0 0 (message_entry self_result_msg))) = 0"
  by (simp add: init_session_def update_times_def update_meta_def update_model_def
        update_message_def update_usage_def attach_result_def message_entry_def message_of_def
        self_result_msg_def entry_date_def stats0_def watch_assistant_def)

section \<open>Ratios and the rules\<close>

lemma js_div_Inr: "y \<noteq> 0 \<Longrightarrow> js_div x y = Inr (x / y)"
  by (simp add: js_div_def)

lemma error_rate_Inr: "\<exists>r. error_rate w = Inr r"
  by (simp add: error_rate_def js_div_def)

lemma night_ratio_Inr: "\<exists>r. night_ratio w = Inr r"
  by (simp add: night_ratio_def js_div_def Let_def)

lemma tools_per_session_Inr: "\<exists>r. tools_per_session w = Inr r"
  by (simp add: tools_per_session_def js_div_def)

lemma detectToolErrors_Inr: "\<exists>r. detectToolErrors w = Inr r"
proof -
  obtain q where "error_rate w = Inr q" using error_rate_Inr by blast
  then show ?thesis by (simp add: detectToolErrors_def bind_err_def)
qed

lemma detectUnusualHours_Inr: "\<exists>r. detectUnusualHours w = Inr r"
proof -
  obtain q where "night_ratio w = Inr q" using night_ratio_Inr by blast
  then show ?thesis by (simp add: detectUnusualHours_def bind_err_def)
qed

lemma dominance_loop_Inr:
  "totalToolCalls w \<noteq> 0 \<or> tools = [] \<Longrightarrow> \<exists>r. dominance_loop w tools = Inr r"
proof (induction tools)
  case Nil
  show ?case by simp
next
  case (Cons tc tools)
  then have nz: "totalToolCalls w \<noteq> 0" by simp
  then obtain r where r: "dominance_loop w tools = Inr r" using Cons.IH by blast
  obtain t c where tc: "tc = (t, c)" by (cases tc)
  show ?case using nz r by (simp add: tc js_div_def bind_err_def)
qed

lemma foldl_bump_Nil: "foldl (\<lambda>cs tc. bump (key_of (tc_name tc)) cs) counts [] = counts"
  by simp

lemma count_toolCalls_no_calls:
  "\<forall>s\<in>set ss. toolCalls s = [] \<Longrightarrow>
     foldl (\<lambda>counts s. foldl (\<lambda>cs tc. bump (key_of (tc_name tc)) cs) counts (toolCalls s)) c ss = c"
  by (induction ss arbitrary: c) simp_all

lemma sum_list_lengths_0:
  "sum_list (map (\<lambda>s. length (toolCalls s)) ss) = 0 \<Longrightarrow> \<forall>s\<in>set ss. toolCalls s = []"
  by (induction ss) auto

lemma topTools_empty:
  assumes "getWeeklySummary a days = Inr w" and "totalToolCalls w = 0"
  shows "topTools w = []"
proof -
  from assms have "sum_list (map (\<lambda>s. length (toolCalls s)) (filterByDays a days)) = 0"
    using getWeeklySummary_totals(3)[OF assms(1)] by simp
  then have "count_toolCalls (filterByDays a days) = []"
    unfolding count_toolCalls_def by (intro count_toolCalls_no_calls sum_list_lengths_0)
  then show ?thesis using getWeeklySummary_totals(7)[OF assms(1)] by (simp add: sort_desc_def)
qed

lemma dominance_summary_Inr:
  assumes "getWeeklySummary a days = Inr w"
  shows "\<exists>r. dominance_loop w (topTools w) = Inr r"
  using topTools_empty[OF assms] by (intro dominance_loop_Inr) blast

lemma detectHighToolUsage_Inr:
  assumes "getWeeklySummary a days = Inr w"
  shows "\<exists>d q. dominance_loop w (topTools w) = Inr d \<and> tools_per_session w = Inr q
           \<and> detectHighToolUsage w = Inr (d @ frequency_findings q)"
proof -
  obtain d where d: "dominance_loop w (topTools w) = Inr d"
    using dominance_summary_Inr[OF assms] by blast
  obtain q where q: "tools_per_session w = Inr q" using tools_per_session_Inr by blast
  show ?thesis using d q by (simp add: detectHighToolUsage_def bind_err_def)
qed

lemma averages_zero:
  assumes "getWeeklySummary a days = Inr w" and "totalSessions w = 0"
  shows "avgTokensPerSession w = 0 \<and> avgMessagesPerSession w = 0"
proof -
  from assms have "filterByDays a days = []"
    using getWeeklySummary_totals(1)[OF assms(1)] by (simp add: sum_list_triv)
  with assms(1) show ?thesis
    by (auto simp: getWeeklySummary_def Let_def bind_err_def avg_tokens_def avg_messages_def)
qed

text \<open>
  C8, as the code has it. Each of the five guarded ratios is 0 when its denominator is 0:
  the two averages of the summary with no sessions, the tool error rate with no tool
  calls, the night ratio with no activity, the tool calls per session with no sessions.
  The per-tool ratio has no guard; a summary built from sessions lists no tool when it
  counts no tool call, so there the ratio is not computed. Whatever the sessions, the
  summary is produced and the detector divides by zero nowhere.
\<close>

theorem ratios_guarded:
  "avg_tokens [] = Inr 0 \<and> avg_messages [] = Inr 0
   \<and> (totalToolCalls w = 0 \<longrightarrow> error_rate w = Inr 0)
   \<and> (foldl (\<lambda>sum v. sum + v) 0 (hourlyActivity w) = 0 \<longrightarrow> night_ratio w = Inr 0)
   \<and> (totalSessions w = 0 \<longrightarrow> tools_per_session w = Inr 0)
   \<and> (\<exists>v. getWeeklySummary a days = Inr v
         \<and> (totalSessions v = 0 \<longrightarrow> avgTokensPerSession v = 0 \<and> avgMessagesPerSession v = 0)
         \<and> (totalToolCalls v = 0 \<longrightarrow> topTools v = [])
         \<and> (\<exists>d. dominance_loop v (topTools v) = Inr d))
   \<and> detect a \<noteq> Inl DivisionByZero"
proof (intro conjI impI)
  show "avg_tokens [] = Inr 0" by (simp add: avg_tokens_def)
  show "avg_messages [] = Inr 0" by (simp add: avg_messages_def)
  show "error_rate w = Inr 0" if "totalToolCalls w = 0"
    using that by (simp add: error_rate_def)
  show "night_ratio w = Inr 0" if "foldl (\<lambda>sum v. sum + v) 0 (hourlyActivity w) = 0"
    using that by (simp add: night_ratio_def)
  show "tools_per_session w = Inr 0" if "totalSessions w = 0"
    using that by (simp add: tools_per_session_def)
next
  obtain v where v: "getWeeklySummary a days = Inr v" using getWeeklySummary_Inr by blast
  have "(totalSessions v = 0 \<longrightarrow> avgTokensPerSession v = 0 \<and> avgMessagesPerSession v = 0)"
    using averages_zero[OF v] by simp
  moreover have "totalToolCalls v = 0 \<longrightarrow> topTools v = []"
    using topTools_empty[OF v] by simp
  moreover note dominance_summary_Inr[OF v]
  ultimately show "\<exists>v. getWeeklySummary a days = Inr v
         \<and> (totalSessions v = 0 \<longrightarrow> avgTokensPerSession v = 0 \<and> avgMessagesPerSession v = 0)
         \<and> (totalToolCalls v = 0 \<longrightarrow> topTools v = [])
         \<and> (\<exists>d. dominance_loop v (topTools v) = Inr d)"
    using v by (intro exI[of _ v] conjI)
next
  obtain w' where w': "getWeeklySummary a 7 = Inr w'" using getWeeklySummary_Inr by blast
  obtain e where e: "detectToolErrors w' = Inr e" using detectToolErrors_Inr by blast
  obtain h where h: "detectUnusualHours w' = Inr h" using detectUnusualHours_Inr by blast
  obtain u where u: "detectHighToolUsage w' = Inr u" using detectHighToolUsage_Inr[OF w'] by blast
  have "\<exists>r. detect a = Inr r" by (simp add: detect_def bind_err_def Let_def w' e h u)
  then show "detect a \<noteq> Inl DivisionByZero" by (elim exE) simp
qed

lemma empty_hours: "foldl (\<lambda>sum v. sum + v) 0 (hourly 0 []) = 0"
  by code_simp

theorem ratios_guarded_witness:
  "\<exists>v. getWeeklySummary empty_analytics 7 = Inr v
     \<and> totalSessions v = 0 \<and> totalToolCalls v = 0
     \<and> foldl (\<lambda>sum v. sum + v) 0 (hourlyActivity v) = 0
     \<and> avgTokensPerSession v = 0 \<and> avgMessagesPerSession v = 0 \<and> topTools v = []
     \<and> error_rate v = Inr 0 \<and> night_ratio v = Inr 0 \<and> tools_per_session v = Inr 0
     \<and> detect empty_analytics \<noteq> Inl DivisionByZero"
proof -
  note g = ratios_guarded[of _ empty_analytics 7]
  from g[of undefined] obtain v where v: "getWeeklySummary empty_analytics 7 = Inr v"
    and avg: "totalSessions v = 0 \<longrightarrow> avgTokensPerSession v = 0 \<and> avgMessagesPerSession v = 0"
    and top: "totalToolCalls v = 0 \<longrightarrow> topTools v = []"
    by (elim conjE exE)
  have w: "filterByDays empty_analytics 7 = []"
    by (simp add: filterByDays_def empty_analytics_def utcOffset_def)
  note t = getWeeklySummary_totals[OF v, unfolded w]
  have z: "totalSessions v = 0" "totalToolCalls v = 0"
    using t(1,3) by simp_all
  have h: "foldl (\<lambda>sum v. sum + v) 0 (hourlyActivity v) = 0"
    using t(8) by (simp add: empty_analytics_def utcOffset_def empty_hours)
  from g[of v] z h have r: "error_rate v = Inr 0" "night_ratio v = Inr 0"
    "tools_per_session v = Inr 0" and d: "detect empty_analytics \<noteq> Inl DivisionByZero"
    by simp_all
  from avg top z have a: "avgTokensPerSession v = 0" "avgMessagesPerSession v = 0" "topTools v = []"
    by simp_all
  show ?thesis
    by (intro exI[of _ v] conjI v z h a r d)
qed

text \<open>
  C8 as stated fails for the per-tool ratio: on a summary that lists a tool with 60 calls
  while its tool-call total is 0, the rule divides 60 by 0. The quotient is not 0 (in
  JavaScript it is \<open>Infinity\<close>, which passes the test \<open>ratio > 0.5\<close>).
\<close>

theorem ratios_guarded_counterexample:
  "totalToolCalls orphan_summary = 0
   \<and> topTools orphan_summary = [(''exec'', 60)]
   \<and> js_div (real 60) (real (totalToolCalls orphan_summary)) = Inl DivisionByZero
   \<and> dominance_loop orphan_summary (topTools orphan_summary) = Inl DivisionByZero
   \<and> detectHighToolUsage orphan_summary = Inl DivisionByZero"
  by (simp add: orphan_summary_def detectHighToolUsage_def js_div_def bind_err_def)

section \<open>The order of the findings\<close>

text \<open>
  C1, as the code has it. The detector's output is the concatenation of the rules'
  findings in the order token spike, high error rate, unusual hours, cost spike, activity
  gap, tool dominance, high call frequency.
\<close>

theorem detect_order:
  "\<exists>w e h d q. getWeeklySummary a 7 = Inr w
     \<and> detectToolErrors w = Inr e \<and> detectUnusualHours w = Inr h
     \<and> dominance_loop w (topTools w) = Inr d \<and> tools_per_session w = Inr q
     \<and> detect a = Inr (detectTokenSpikes (getDailyStats a 7) w @ e @ h
                        @ detectCostSpikes (getDailyStats a 7) w
                        @ detectActivityGaps (getDailyStats a 7) @ d @ frequency_findings q)"
proof -
  obtain w where w: "getWeeklySummary a 7 = Inr w" using getWeeklySummary_Inr by blast
  obtain e where e: "detectToolErrors w = Inr e" using detectToolErrors_Inr by blast
  obtain h where h: "detectUnusualHours w = Inr h" using detectUnusualHours_Inr by blast
  obtain d q where d: "dominance_loop w (topTools w) = Inr d" and q: "tools_per_session w = Inr q"
    and u: "detectHighToolUsage w = Inr (d @ frequency_findings q)"
    using detectHighToolUsage_Inr[OF w] by blast
  have "detect a = Inr (detectTokenSpikes (getDailyStats a 7) w @ e @ h
                        @ detectCostSpikes (getDailyStats a 7) w
                        @ detectActivityGaps (getDailyStats a 7) @ d @ frequency_findings q)"
    by (simp add: detect_def bind_err_def Let_def w e h u)
  with w e h d q show ?thesis
    by (intro exI[of _ w] exI[of _ e] exI[of _ h] exI[of _ d] exI[of _ q] conjI)
qed

lemma busy_window: "filterByDays busy_analytics 7 = [busy_session]"
  by (simp add: filterByDays_def setDate_minus_def TimeClip_def in_range_def Let_def
        busy_analytics_def started_since_def busy_session_def plain_session_def DAY_def)

lemma busy_daily:
  "getDailyStats busy_analytics 7 =
     [zero_row (- 345600000), zero_row (- 259200000), zero_row (- 172800000),
      zero_row (- 86400000), zero_row 0, zero_row 86400000,
      \<lparr> ds_date = 172800000, ds_sessions = 1, ds_messages = 0, ds_toolCalls = 6,
        ds_tokens = 0, ds_cost = 1, ds_userMessages = 0, ds_assistantMessages = 0 \<rparr>]"
  by (simp add: getDailyStats_eq upt_conv_Cons day_stat_def local_midnight_def DAY_def
        started_within_def busy_session_def plain_session_def Let_def busy_analytics_def utcOffset_def
        zero_row_def init_session_def count_role_def)

lemma busy_hours:
  "take 6 (hourly 0 [busy_session]) = [1, 0, 0, 0, 0, 0]"
  "foldl (\<lambda>sum v. sum + v) 0 (hourly 0 [busy_session]) = 1"
  by code_simp+

lemma busy_tools: "take 10 (sort_desc (count_toolCalls [busy_session])) = [(''exec'', 6)]"
  by code_simp

lemma busy_summary:
  assumes "getWeeklySummary busy_analytics 7 = Inr w"
  shows "totalSessions w = 1" "totalToolCalls w = 6" "totalTokens w = 0" "totalCost w = 1"
    "toolErrors w = 6" "topTools w = [(''exec'', 6)]"
    "take 6 (hourlyActivity w) = [1, 0, 0, 0, 0, 0]"
    "foldl (\<lambda>sum v. sum + v) 0 (hourlyActivity w) = 1"
proof -
  note t = getWeeklySummary_totals[OF assms, unfolded busy_window]
  have u: "utcOffset busy_analytics = 0" by (simp add: busy_analytics_def utcOffset_def)
  show "totalSessions w = 1" using t(1) by simp
  show "totalToolCalls w = 6" using t(3) by (simp add: busy_session_def)
  show "totalTokens w = 0" using t(4) by (simp add: busy_session_def plain_session_def init_session_def)
  show "totalCost w = 1" using t(5) by (simp add: busy_session_def)
  show "toolErrors w = 6" using t(6) by (simp add: busy_session_def is_error_call_def error_call_def)
  show "topTools w = [(''exec'', 6)]" using t(7) by (simp add: busy_tools)
  show "take 6 (hourlyActivity w) = [1, 0, 0, 0, 0, 0]" using t(8) by (simp add: u busy_hours)
  show "foldl (\<lambda>sum v. sum + v) 0 (hourlyActivity w) = 1" using t(8) by (simp add: u busy_hours)
qed

lemma busy_rules:
  assumes "getWeeklySummary busy_analytics 7 = Inr w"
  shows "detectTokenSpikes (getDailyStats busy_analytics 7) w = []"
    and "map a_type (detectCostSpikes (getDailyStats busy_analytics 7) w) = [''cost_spike'']"
    and "\<exists>e. detectToolErrors w = Inr e \<and> map a_type e = [''high_error_rate'']"
    and "detectUnusualHours w = Inr []"
    and "map a_type (detectActivityGaps (getDailyStats busy_analytics 7)) =
           [''activity_gap'', ''activity_gap'', ''activity_gap'', ''activity_gap'', ''activity_gap'']"
    and "detectHighToolUsage w = Inr []"
proof -
  note s = busy_summary[OF assms]
  show "detectTokenSpikes (getDailyStats busy_analytics 7) w = []"
    by (simp add: detectTokenSpikes_def busy_daily s zero_row_def)
  show "map a_type (detectCostSpikes (getDailyStats busy_analytics 7) w) = [''cost_spike'']"
    by (simp add: detectCostSpikes_def busy_daily s zero_row_def)
  show "\<exists>e. detectToolErrors w = Inr e \<and> map a_type e = [''high_error_rate'']"
    by (simp add: detectToolErrors_def error_rate_def js_div_def bind_err_def s)
  show "detectUnusualHours w = Inr []"
    by (simp add: detectUnusualHours_def night_ratio_def night_activity_def js_div_def
          bind_err_def s Let_def)
  show "map a_type (detectActivityGaps (getDailyStats busy_analytics 7)) =
           [''activity_gap'', ''activity_gap'', ''activity_gap'', ''activity_gap'', ''activity_gap'']"
    by (simp add: detectActivityGaps_def busy_daily zero_row_def gap_finding_def)
  show "detectHighToolUsage w = Inr []"
    by (simp add: detectHighToolUsage_def tools_per_session_def frequency_findings_def
          js_div_def bind_err_def s)
qed

text \<open>
  C1 as stated fails: with one session that has a cost spike and a high error rate, the
  detector reports the error rate before the cost spike; the order of the table would
  put the cost spike first.
\<close>

theorem detect_order_counterexample:
  "\<exists>xs ys. detect busy_analytics = Inr xs \<and> detect_in_table_order busy_analytics = Inr ys
     \<and> map a_type xs = [''high_error_rate'', ''cost_spike'', ''activity_gap'', ''activity_gap'',
                         ''activity_gap'', ''activity_gap'', ''activity_gap'']
     \<and> map a_type ys = [''cost_spike'', ''high_error_rate'', ''activity_gap'', ''activity_gap'',
                         ''activity_gap'', ''activity_gap'', ''activity_gap'']"
proof -
  obtain w where w: "getWeeklySummary busy_analytics 7 = Inr w"
    using getWeeklySummary_Inr by blast
  note r = busy_rules[OF w]
  from r(3) obtain e where e: "detectToolErrors w = Inr e" "map a_type e = [''high_error_rate'']"
    by (elim exE conjE)
  let ?ds = "getDailyStats busy_analytics 7"
  have x: "detect busy_analytics = Inr (e @ detectCostSpikes ?ds w @ detectActivityGaps ?ds)"
    by (simp add: detect_def bind_err_def Let_def w e(1) r(1,4,6))
  have y: "detect_in_table_order busy_analytics = Inr (detectCostSpikes ?ds w @ e @ detectActivityGaps ?ds)"
    by (simp add: detect_in_table_order_def bind_err_def Let_def w e(1) r(1,4,6))
  show ?thesis
    by (intro exI[of _ "e @ detectCostSpikes ?ds w @ detectActivityGaps ?ds"]
          exI[of _ "detectCostSpikes ?ds w @ e @ detectActivityGaps ?ds"] conjI x y)
       (simp_all add: e(2) r(2,5))
qed

end
